theory Spec2Isabelle
  imports Complex_Main
begin

section \<open>Python strings\<close>

text \<open>
  A Python \<^verbatim>\<open>str\<close> is a sequence of Unicode code points, so a string is a list of
  natural numbers here. \<open>lit\<close> turns an ASCII literal into its code points; the bullet
  that the script writes in front of list items is U+2022.
\<close>

type_synonym ustring = "nat list"

definition lit :: "string \<Rightarrow> ustring" where
  "lit s = map of_char s"

definition bullet :: nat where
  "bullet = 8226"

text \<open>
  \<^verbatim>\<open>str.strip()\<close> without argument removes the code points Python counts as white
  space (\<^verbatim>\<open>str.isspace\<close>) from both ends.
\<close>

definition isspace :: "nat \<Rightarrow> bool" where
  "isspace c \<longleftrightarrow>
     (9 \<le> c \<and> c \<le> 13) \<or> (28 \<le> c \<and> c \<le> 32) \<or> c = 133 \<or> c = 160 \<or> c = 5760 \<or>
     (8192 \<le> c \<and> c \<le> 8202) \<or> c = 8232 \<or> c = 8233 \<or> c = 8239 \<or> c = 8287 \<or>
     c = 12288"

definition strip :: "ustring \<Rightarrow> ustring" where
  "strip s = rev (dropWhile isspace (rev (dropWhile isspace s)))"

text \<open>\<^verbatim>\<open>sub in s\<close> on strings: \<open>sub\<close> occurs in \<open>s\<close> as a contiguous block.\<close>

fun starts_with :: "ustring \<Rightarrow> ustring \<Rightarrow> bool" where
  "starts_with [] s = True"
| "starts_with (c # cs) [] = False"
| "starts_with (c # cs) (d # ds) = (c = d \<and> starts_with cs ds)"

fun contains :: "ustring \<Rightarrow> ustring \<Rightarrow> bool" where
  "contains sub [] = (sub = [])"
| "contains sub (c # cs) = (starts_with sub (c # cs) \<or> contains sub cs)"

text \<open>\<^verbatim>\<open>text.split(':')[0]\<close>: the part of the text before its first colon.\<close>

definition colon :: nat where
  "colon = 58"

definition split_first :: "nat \<Rightarrow> ustring \<Rightarrow> ustring" where
  "split_first sep s = takeWhile (\<lambda>c. c \<noteq> sep) s"

text \<open>
  \<^verbatim>\<open>re.sub(r'<[^>]+>', '', s)\<close>: scanning from the left, a \<^verbatim>\<open><\<close> followed by one
  or more code points other than \<^verbatim>\<open>>\<close> and then a \<^verbatim>\<open>>\<close> is removed; any other code
  point is kept. The run \<^verbatim>\<open>[^>]+\<close> is greedy and can only end at the first \<^verbatim>\<open>>\<close>,
  so a match at a \<^verbatim>\<open><\<close> exists exactly when that run is non-empty and a \<^verbatim>\<open>>\<close>
  follows it.
\<close>

definition lt_sign :: nat where
  "lt_sign = 60"

definition gt_sign :: nat where
  "gt_sign = 62"

function re_sub_tags :: "ustring \<Rightarrow> ustring" where
  "re_sub_tags [] = []"
| "re_sub_tags (c # cs) =
     (if c = lt_sign \<and> takeWhile (\<lambda>d. d \<noteq> gt_sign) cs \<noteq> [] \<and>
         dropWhile (\<lambda>d. d \<noteq> gt_sign) cs \<noteq> []
      then re_sub_tags (tl (dropWhile (\<lambda>d. d \<noteq> gt_sign) cs))
      else c # re_sub_tags cs)"
  by pat_completeness auto
termination
proof (relation "measure length")
  fix c :: nat and cs :: ustring
  assume "c = lt_sign \<and> takeWhile (\<lambda>d. d \<noteq> gt_sign) cs \<noteq> [] \<and>
    dropWhile (\<lambda>d. d \<noteq> gt_sign) cs \<noteq> []"
  have "length (tl (dropWhile (\<lambda>d. d \<noteq> gt_sign) cs)) \<le> length cs"
    using length_dropWhile_le [of "\<lambda>d. d \<noteq> gt_sign" cs] by simp
  then show "(tl (dropWhile (\<lambda>d. d \<noteq> gt_sign) cs), c # cs) \<in> measure length"
    by simp
qed simp_all

text \<open>\<^verbatim>\<open>str(i)\<close> for a non-negative integer: its decimal digits.\<close>

function str_nat :: "nat \<Rightarrow> ustring" where
  "str_nat n = (if n < 10 then [48 + n] else str_nat (n div 10) @ [48 + n mod 10])"
  by pat_completeness auto
termination
  by (relation "measure id") auto

declare str_nat.simps [simp del]

section \<open>The parsed fragment\<close>

text \<open>
  \<^verbatim>\<open>BeautifulSoup(html_content, 'html.parser')\<close> returns a tree. The converter reads
  tags (name, attributes, children) and, through \<^verbatim>\<open>get_text()\<close>, the text strings
  below a tag; strings of the other classes (comments, declarations) are read by
  nothing in the script and are left out of the tree.
\<close>

datatype node =
    NavigableString ustring
  | Tag ustring "(ustring \<times> ustring) list" "node list"

fun get_text :: "node \<Rightarrow> ustring" where
  "get_text (NavigableString s) = s"
| "get_text (Tag n attrs cs) = concat (map get_text cs)"

fun contents :: "node \<Rightarrow> node list" where
  "contents (NavigableString s) = []"
| "contents (Tag n attrs cs) = cs"

fun is_tag :: "ustring \<Rightarrow> node \<Rightarrow> bool" where
  "is_tag name (NavigableString s) = False"
| "is_tag name (Tag n attrs cs) = (n = name)"

text \<open>\<^verbatim>\<open>element.get('style', '')\<close>.\<close>

fun get_attr :: "node \<Rightarrow> ustring \<Rightarrow> ustring \<Rightarrow> ustring" where
  "get_attr (NavigableString s) key dflt = dflt"
| "get_attr (Tag n attrs cs) key dflt = (case map_of attrs key of None \<Rightarrow> dflt | Some v \<Rightarrow> v)"

text \<open>
  \<^verbatim>\<open>find_all(names)\<close> lists the tags below a node whose name is one of \<open>names\<close>, in
  document order. The script later reads \<^verbatim>\<open>element.parent\<close>, so each tag comes with
  the names of its ancestors, the parent first; the parent of a tag at the top of the
  fragment is the soup object itself, whose name is \<^verbatim>\<open>[document]\<close>.
\<close>

fun find_all :: "ustring list \<Rightarrow> ustring list \<Rightarrow> node \<Rightarrow> (ustring list \<times> node) list" where
  "find_all names ctx (NavigableString s) = []"
| "find_all names ctx (Tag n attrs cs) =
     (if n \<in> set names then [(ctx, Tag n attrs cs)] else []) @
     concat (map (find_all names (n # ctx)) cs)"

definition soup_find_all :: "ustring list \<Rightarrow> node list \<Rightarrow> (ustring list \<times> node) list" where
  "soup_find_all names soup = concat (map (find_all names []) soup)"

definition parent_name :: "ustring list \<Rightarrow> ustring" where
  "parent_name ctx = (case ctx of [] \<Rightarrow> lit ''[document]'' | p # _ \<Rightarrow> p)"

text \<open>\<^verbatim>\<open>element.find_all('li', recursive=False)\<close>: the children that are such tags.\<close>

definition find_children :: "ustring \<Rightarrow> node \<Rightarrow> node list" where
  "find_children name element = filter (is_tag name) (contents element)"

text \<open>\<^verbatim>\<open>li.find('ul')\<close>: the first such tag below the node in document order.\<close>

fun find_first :: "ustring \<Rightarrow> node list \<Rightarrow> node option" where
  "find_first name [] = None"
| "find_first name (NavigableString s # rest) = find_first name rest"
| "find_first name (Tag n attrs cs # rest) =
     (if n = name then Some (Tag n attrs cs)
      else (case find_first name cs of
              Some t \<Rightarrow> Some t
            | None \<Rightarrow> find_first name rest))"

section \<open>Flowables and the libraries\<close>

text \<open>
  The script builds ReportLab flowables. A paragraph is its markup text and the name of
  its style in the stylesheet that \<^verbatim>\<open>setup_styles\<close> fills; the table of contents is a
  table of paragraphs. The presentation attributes (column widths, \<^verbatim>\<open>TableStyle\<close>
  commands, fonts and colours of the styles) decide nothing below and are left out.
\<close>

datatype style =
    ReleaseTitle | ReleaseDate | SectionHeader | SubsectionHeader
  | ReleaseContent | ListItem | Footer | PageNumber

datatype flowable =
    Paragraph ustring style
  | Spacer real real
  | PageBreak
  | Table "flowable list list"

text \<open>
  The exceptions that the script's own statements raise are named; \<open>LibraryError\<close>
  stands for any other exception that a library raises.
\<close>

datatype exn =
    FileNotFoundError | UnicodeDecodeError | ValueError | TypeError | KeyError
  | LibraryError

text \<open>
  What the script calls and the repository does not contain is a parameter:
  \<^item> \<open>BeautifulSoup\<close>: the parser, which returns the top-level nodes of the fragment or
    raises;
  \<^item> \<open>para_accepts\<close>: whether ReportLab's \<^verbatim>\<open>Paragraph(text, style)\<close> accepts the text.
    The constructor parses its text as paragraph markup and raises \<^verbatim>\<open>ValueError\<close> on
    markup it cannot parse;
  \<^item> \<open>str_upper\<close>: Python's \<^verbatim>\<open>str.upper\<close>;
  \<^item> \<open>layout\<close>: the number of pages into which \<^verbatim>\<open>SimpleDocTemplate.build\<close> lays out
    a story, or the exception it raises;
  \<^item> \<open>svg2rlg\<close>: the SVG reader, which returns a drawing, returns \<^verbatim>\<open>None\<close> or raises;
  \<^item> \<open>drawing_scale\<close>: ReportLab's \<^verbatim>\<open>Drawing.scale(sx, sy)\<close>, which scales the content
    of a drawing by \<open>sx\<close> along x and by \<open>sy\<close> along y;
  \<^item> \<open>draws_drawing\<close> and \<open>draws_image\<close>: whether \<^verbatim>\<open>renderPDF.draw\<close> of a drawing and
    \<^verbatim>\<open>canvas.drawImage\<close> of a file return (they raise otherwise);
  \<^item> \<open>float_div\<close> and \<open>float_mul\<close>: the division and the multiplication of Python's
    floats, with their rounding;
  \<^item> \<open>yaml_safe_load\<close>: the YAML reader, which returns the loaded value or raises;
  \<^item> \<open>format_value\<close>: the text that an f-string writes for a loaded value that is not a
    string.
  The types \<open>pyfloat\<close>, \<open>drawing\<close> and \<open>yaml\<close> are declared first for that reason.
\<close>

text \<open>
  A Python float is a finite number, an infinity or not a number; the finite floats
  are some of the reals. In a condition a float is true unless it is zero.
\<close>

datatype pyfloat = Finite real | PosInfinity | NegInfinity | NaN

definition truthy :: "pyfloat \<Rightarrow> bool" where
  "truthy x \<longleftrightarrow> x \<noteq> Finite 0"

record drawing =
  width :: pyfloat
  height :: pyfloat
  transform :: "pyfloat \<times> pyfloat \<times> pyfloat \<times> pyfloat \<times> pyfloat \<times> pyfloat"

datatype yaml =
    YNull
  | YBool bool
  | YInt int
  | YFloat pyfloat
  | YStr ustring
  | YSeq "yaml list"
  | YMap "(yaml \<times> yaml) list"

record library =
  BeautifulSoup :: "ustring \<Rightarrow> exn + node list"
  para_accepts :: "ustring \<Rightarrow> bool"
  str_upper :: "ustring \<Rightarrow> ustring"
  layout :: "flowable list \<Rightarrow> exn + nat"
  svg2rlg :: "ustring \<Rightarrow> exn + drawing option"
  drawing_scale :: "pyfloat \<Rightarrow> pyfloat \<Rightarrow> drawing \<Rightarrow> drawing"
  draws_drawing :: "drawing \<Rightarrow> bool"
  draws_image :: "ustring \<Rightarrow> bool"
  float_div :: "pyfloat \<Rightarrow> pyfloat \<Rightarrow> pyfloat"
  float_mul :: "pyfloat \<Rightarrow> pyfloat \<Rightarrow> pyfloat"
  yaml_safe_load :: "ustring \<Rightarrow> exn + yaml"
  format_value :: "yaml \<Rightarrow> ustring"

section \<open>The markup block converter: \<^verbatim>\<open>parse_html_content\<close>\<close>

text \<open>
  Inside the \<^verbatim>\<open>try\<close> block every \<^verbatim>\<open>elements.append(Paragraph(...))\<close> either appends
  one paragraph or raises. A step therefore returns the paragraphs it appended
  (\<open>Inr\<close>), or the exception together with the paragraphs appended before it was raised
  (\<open>Inl\<close>): the handler of the \<^verbatim>\<open>try\<close> block goes on with the same list
  \<^verbatim>\<open>elements\<close>.
\<close>

type_synonym emitted = "(exn \<times> flowable list) + flowable list"

definition append_Paragraph :: "library \<Rightarrow> ustring \<Rightarrow> style \<Rightarrow> emitted" where
  "append_Paragraph L text st =
     (if para_accepts L text then Inr [Paragraph text st] else Inl (ValueError, []))"

definition and_then :: "emitted \<Rightarrow> emitted \<Rightarrow> emitted" where
  "and_then a b =
     (case a of
        Inl (e, xs) \<Rightarrow> Inl (e, xs)
      | Inr xs \<Rightarrow>
          (case b of
             Inl (e, ys) \<Rightarrow> Inl (e, xs @ ys)
           | Inr ys \<Rightarrow> Inr (xs @ ys)))"

fun for_each :: "('a \<Rightarrow> emitted) \<Rightarrow> 'a list \<Rightarrow> emitted" where
  "for_each f [] = Inr []"
| "for_each f (x # xs) = and_then (f x) (for_each f xs)"

definition tag_names :: "ustring list" where
  "tag_names = [lit ''p'', lit ''h1'', lit ''h2'', lit ''h3'', lit ''ul'', lit ''li'']"

text \<open>The body of the loop over a nested list (lines 261 to 264).\<close>

definition nested_item :: "library \<Rightarrow> node \<Rightarrow> emitted" where
  "nested_item L nested_li =
     (let nested_text = strip (get_text nested_li) in
      if nested_text \<noteq> []
      then append_Paragraph L (lit ''  '' @ [bullet] @ lit '' '' @ nested_text) ListItem
      else Inr [])"

text \<open>The body of the loop over the direct items of a list (lines 252 to 267).\<close>

definition list_item :: "library \<Rightarrow> node \<Rightarrow> emitted" where
  "list_item L li =
     (let text = strip (get_text li) in
      if text \<noteq> [] then
        (case find_first (lit ''ul'') (contents li) of
           Some nested_ul \<Rightarrow>
             (let main_text = (if colon \<in> set text then split_first colon text else text) in
              and_then (append_Paragraph L ([bullet] @ lit '' '' @ main_text) ListItem)
                (for_each (nested_item L) (find_children (lit ''li'') nested_ul)))
         | None \<Rightarrow> append_Paragraph L ([bullet] @ lit '' '' @ text) ListItem)
      else Inr [])"

text \<open>The body of the loop over the tags that \<^verbatim>\<open>find_all\<close> lists (lines 225 to 275).\<close>

definition handle_element :: "library \<Rightarrow> ustring list \<times> node \<Rightarrow> emitted" where
  "handle_element L ce =
     (let ctx = fst ce; element = snd ce in
      if is_tag (lit ''p'') element then
        (let text = strip (get_text element) in
         if text \<noteq> [] then
           (let style = get_attr element (lit ''style'') [] in
            if contains (lit ''color: #2f5496'') style \<and> contains (lit ''font-size: 16pt'') style
            then append_Paragraph L text SectionHeader
            else if contains (lit ''color: #2f5496'') style \<and>
                    contains (lit ''font-size: 13pt'') style
            then append_Paragraph L text SubsectionHeader
            else append_Paragraph L text ReleaseContent)
         else Inr [])
      else if is_tag (lit ''h1'') element \<or> is_tag (lit ''h2'') element \<or>
              is_tag (lit ''h3'') element then
        (let text = strip (get_text element) in
         if text \<noteq> [] then
           (if is_tag (lit ''h1'') element
            then append_Paragraph L text SectionHeader
            else append_Paragraph L text SubsectionHeader)
         else Inr [])
      else if is_tag (lit ''ul'') element then
        for_each (list_item L) (find_children (lit ''li'') element)
      else if is_tag (lit ''li'') element then
        (if parent_name ctx \<noteq> lit ''ul'' then
           (let text = strip (get_text element) in
            if text \<noteq> []
            then append_Paragraph L ([bullet] @ lit '' '' @ text) ListItem
            else Inr [])
         else Inr [])
      else Inr [])"

text \<open>
  The \<^verbatim>\<open>try\<close> block: parse, then loop over the tags found. The parser raises before
  anything is appended.
\<close>

definition try_block :: "library \<Rightarrow> ustring \<Rightarrow> emitted" where
  "try_block L html_content =
     (case BeautifulSoup L html_content of
        Inl e \<Rightarrow> Inl (e, [])
      | Inr soup \<Rightarrow> for_each (handle_element L) (soup_find_all tag_names soup))"

text \<open>
  The whole method. Its handler catches every exception of the \<^verbatim>\<open>try\<close> block, strips
  the tags from the fragment and appends what is left as one paragraph to
  \<^verbatim>\<open>elements\<close>. That last \<^verbatim>\<open>Paragraph(...)\<close> stands outside any \<^verbatim>\<open>try\<close>: when it
  raises, the method raises (\<open>Inl\<close>). The message the handler prints is not modelled.
\<close>

definition parse_html_content :: "library \<Rightarrow> ustring \<Rightarrow> exn + flowable list" where
  "parse_html_content L html_content =
     (if html_content = [] then Inr []
      else
        (case try_block L html_content of
           Inr elements \<Rightarrow> Inr elements
         | Inl (e, elements) \<Rightarrow>
             (let plain_text = re_sub_tags html_content in
              if strip plain_text \<noteq> [] then
                (if para_accepts L (strip plain_text)
                 then Inr (elements @ [Paragraph (strip plain_text) ReleaseContent])
                 else Inl ValueError)
              else Inr elements)))"

section \<open>The logo: \<^verbatim>\<open>convert_svg_to_drawing\<close>\<close>

text \<open>
  \<^verbatim>\<open>convert_svg_to_drawing\<close> (lines 297 to 327). The width and the height of a drawing
  are floats, and the scale factor and the new width are computed by the float
  operations. The target height is the integer that the caller passes, as the float
  of the same value.
\<close>

definition convert_svg_to_drawing :: "library \<Rightarrow> ustring \<Rightarrow> pyfloat \<Rightarrow> drawing option" where
  "convert_svg_to_drawing L svg_path target_height =
     (case svg2rlg L svg_path of
        Inl e \<Rightarrow> None
      | Inr None \<Rightarrow> None
      | Inr (Some drawing) \<Rightarrow>
          (if truthy (width drawing) \<and> truthy (height drawing) then
             (let scale_factor = float_div L target_height (height drawing);
                  new_width = float_mul L (width drawing) scale_factor;
                  new_height = target_height
              in Some ((drawing_scale L scale_factor scale_factor drawing)
                         \<lparr>width := new_width, height := new_height\<rparr>))
           else Some (drawing\<lparr>width := Finite 400, height := target_height\<rparr>)))"

section \<open>The document assembler\<close>

text \<open>
  A release note is a mapping loaded from the YAML file; the script reads four keys
  with \<^verbatim>\<open>note.get(key, default)\<close>. A field is \<open>None\<close> when the key is absent.
\<close>

record release_note =
  version :: "ustring option"
  title :: "ustring option"
  date :: "ustring option"
  fullText :: "ustring option"

definition dict_get :: "'a option \<Rightarrow> 'a \<Rightarrow> 'a" where
  "dict_get v dflt = (case v of None \<Rightarrow> dflt | Some x \<Rightarrow> x)"

definition enumerate_list :: "'a list \<Rightarrow> (nat \<times> 'a) list" where
  "enumerate_list xs = zip [0..<length xs] xs"

definition dq :: ustring where
  "dq = [34]"

definition inch :: real where
  "inch = 72"

definition anchor_name :: "nat \<Rightarrow> ustring" where
  "anchor_name i = lit ''release_'' @ str_nat i"

definition mk_Paragraph :: "library \<Rightarrow> ustring \<Rightarrow> style \<Rightarrow> exn + flowable" where
  "mk_Paragraph L text st =
     (if para_accepts L text then Inr (Paragraph text st) else Inl ValueError)"

fun map_exn :: "('a \<Rightarrow> exn + 'b) \<Rightarrow> 'a list \<Rightarrow> exn + 'b list" where
  "map_exn f [] = Inr []"
| "map_exn f (x # xs) =
     (case f x of
        Inl e \<Rightarrow> Inl e
      | Inr y \<Rightarrow> (case map_exn f xs of Inl e \<Rightarrow> Inl e | Inr ys \<Rightarrow> Inr (y # ys)))"

text \<open>One row of the table of contents (lines 356 to 366).\<close>

definition toc_link :: "nat \<Rightarrow> ustring \<Rightarrow> ustring" where
  "toc_link i version_text =
     lit ''<link href='' @ dq @ lit ''#'' @ anchor_name i @ dq @ lit '' color='' @ dq @
     lit ''blue'' @ dq @ lit ''>'' @ version_text @ lit ''</link>''"

definition toc_row :: "library \<Rightarrow> nat \<times> release_note \<Rightarrow> exn + flowable list" where
  "toc_row L inote =
     (let i = fst inote; note = snd inote;
          version_text = dict_get (version note) (lit ''N/A'');
          date_text = dict_get (date note) (lit ''Unknown Date'')
      in case mk_Paragraph L (toc_link i version_text) ListItem of
           Inl e \<Rightarrow> Inl e
         | Inr clickable_version \<Rightarrow>
             (case mk_Paragraph L date_text ListItem of
                Inl e \<Rightarrow> Inl e
              | Inr date_para \<Rightarrow> Inr [clickable_version, date_para]))"

definition create_table_of_contents :: "library \<Rightarrow> release_note list \<Rightarrow> exn + flowable" where
  "create_table_of_contents L notes =
     (case mk_Paragraph L (lit ''<b>Version</b>'') ListItem of
        Inl e \<Rightarrow> Inl e
      | Inr version_head \<Rightarrow>
          (case mk_Paragraph L (lit ''<b>Date</b>'') ListItem of
             Inl e \<Rightarrow> Inl e
           | Inr date_head \<Rightarrow>
               (case map_exn (toc_row L) (enumerate_list notes) of
                  Inl e \<Rightarrow> Inl e
                | Inr rows \<Rightarrow> Inr (Table ([version_head, date_head] # rows)))))"

text \<open>The flowables of one release (lines 474 to 498); \<open>n\<close> is the number of notes.\<close>

definition section_title :: "nat \<Rightarrow> ustring \<Rightarrow> ustring" where
  "section_title i title_text =
     lit ''<a name='' @ dq @ anchor_name i @ dq @ lit ''></a>'' @ title_text"

definition release_section ::
  "library \<Rightarrow> nat \<Rightarrow> nat \<times> release_note \<Rightarrow> exn + flowable list" where
  "release_section L n inote =
     (let i = fst inote; note = snd inote;
          title_text = dict_get (title note) (lit ''Unknown Release'')
      in case mk_Paragraph L (section_title i title_text) ReleaseTitle of
           Inl e \<Rightarrow> Inl e
         | Inr title_paragraph \<Rightarrow>
             (let date_text = dict_get (date note) (lit ''Unknown Date'') in
              case mk_Paragraph L
                     (lit ''<b>DATE OF RELEASE:</b> '' @ str_upper L date_text) ReleaseDate of
                Inl e \<Rightarrow> Inl e
              | Inr date_paragraph \<Rightarrow>
                  (let full_text = dict_get (fullText note) [] in
                   case (if full_text \<noteq> [] then parse_html_content L full_text else Inr []) of
                     Inl e \<Rightarrow> Inl e
                   | Inr content_elements \<Rightarrow>
                       Inr ([title_paragraph, date_paragraph, Spacer 1 (0.05 * inch)] @
                            content_elements @
                            (if int i < int n - 1 then [PageBreak] else [])))))"

text \<open>The story that \<^verbatim>\<open>generate_pdf\<close> hands to the layout engine (lines 461 to 498).\<close>

definition build_story :: "library \<Rightarrow> release_note list \<Rightarrow> exn + flowable list" where
  "build_story L notes =
     (case mk_Paragraph L (lit ''Table of Contents'') SectionHeader of
        Inl e \<Rightarrow> Inl e
      | Inr toc_heading \<Rightarrow>
          (case create_table_of_contents L notes of
             Inl e \<Rightarrow> Inl e
           | Inr toc_table \<Rightarrow>
               (case map_exn (release_section L (length notes)) (enumerate_list notes) of
                  Inl e \<Rightarrow> Inl e
                | Inr sections \<Rightarrow>
                    Inr ([toc_heading, Spacer 1 (0.2 * inch), toc_table, PageBreak] @
                         concat sections))))"

section \<open>The generator object, the page decorator and \<^verbatim>\<open>generate_pdf\<close>\<close>

text \<open>
  The fields of \<^verbatim>\<open>ReleaseNotesPDFGenerator\<close> that the methods assign or read. The
  stylesheet is read through the style names, and the PDF metadata, which
  \<^verbatim>\<open>add_header_footer\<close> copies to the canvas, decides nothing below.
\<close>

record generator =
  yaml_file_path :: ustring
  output_path :: ustring
  release_notes :: "release_note list"
  total_pages :: nat
  current_page :: nat
  logo_drawing :: "drawing option"

text \<open>
  \<^verbatim>\<open>__init__\<close>: \<^verbatim>\<open>output_path or "CCDI_Hub_Release_Notes.pdf"\<close> takes the default name
  when no path or the empty path is given.
\<close>

definition init :: "ustring \<Rightarrow> ustring option \<Rightarrow> generator" where
  "init yaml_file output_file =
     \<lparr>yaml_file_path = yaml_file,
      output_path =
        (case output_file of
           None \<Rightarrow> lit ''CCDI_Hub_Release_Notes.pdf''
         | Some path \<Rightarrow> (if path = [] then lit ''CCDI_Hub_Release_Notes.pdf'' else path)),
      release_notes = [], total_pages = 0, current_page = 0, logo_drawing = None\<rparr>"

text \<open>
  A rendered page is what the page decorator drew on it; the PDF is the story and its
  pages. The files of the script's directory are known by name: \<open>None\<close> when no such
  file exists, otherwise its text, or the exception that opening or reading it
  raises, or a PDF that \<^verbatim>\<open>generate_pdf\<close> wrote.
\<close>

datatype header = LogoDrawing drawing | LogoImage real real | BrandingText

record page =
  page_header :: header
  footer_text :: ustring
  page_text :: ustring

record pdf =
  pdf_story :: "flowable list"
  pdf_pages :: "page list"

datatype file_entry = TextFile ustring | Unreadable exn | PdfFile pdf

type_synonym files = "ustring \<Rightarrow> file_entry option"

definition get_logo_drawing ::
  "library \<Rightarrow> files \<Rightarrow> generator \<Rightarrow> pyfloat \<Rightarrow> drawing option \<times> generator" where
  "get_logo_drawing L fs g target_height =
     (if logo_drawing g = None then
        (if fs (lit ''Portal_Logo.svg'') \<noteq> None
         then (let g' = g\<lparr>logo_drawing :=
                           convert_svg_to_drawing L (lit ''Portal_Logo.svg'') target_height\<rparr>
               in (logo_drawing g', g'))
         else (logo_drawing g, g))
      else (logo_drawing g, g))"

text \<open>
  \<^verbatim>\<open>create_header_footer\<close> for the page with number \<open>page_num\<close>: the header is the
  logo drawing, else the raster logo at 400 by 50 when that file exists; when neither
  exists, or when drawing the one chosen raises, the handler at line 414 writes the
  branding text. The footer is the attribution line and the page counter.
\<close>

definition create_header_footer ::
  "library \<Rightarrow> files \<Rightarrow> generator \<Rightarrow> nat \<Rightarrow> page \<times> generator" where
  "create_header_footer L fs g page_num =
     (case get_logo_drawing L fs g (Finite 50) of
        (drawing, g') \<Rightarrow>
          (\<lparr>page_header =
              (case drawing of
                 Some d \<Rightarrow> (if draws_drawing L d then LogoDrawing d else BrandingText)
               | None \<Rightarrow>
                   (if fs (lit ''nih_logo.png'') \<noteq> None then
                      (if draws_image L (lit ''nih_logo.png'') then LogoImage 400 50
                       else BrandingText)
                    else BrandingText)),
            footer_text = lit (''U.S. Department of Health and Human Services | '' @
              ''National Institutes of Health | National Cancer Institute''),
            page_text = lit ''Page '' @ str_nat page_num @ lit '' of '' @
              str_nat (total_pages g')\<rparr>, g'))"

fun decorate_pages ::
  "library \<Rightarrow> files \<Rightarrow> generator \<Rightarrow> nat list \<Rightarrow> page list \<times> generator" where
  "decorate_pages L fs g [] = ([], g)"
| "decorate_pages L fs g (page_num # rest) =
     (case create_header_footer L fs g page_num of
        (p, g') \<Rightarrow>
          (case decorate_pages L fs g' rest of
             (ps, g'') \<Rightarrow> (p # ps, g'')))"

text \<open>
  \<^verbatim>\<open>generate_pdf\<close>: the story is built, \<^verbatim>\<open>total_pages\<close> is assigned, and
  \<^verbatim>\<open>doc.build\<close> lays the story out and calls the page decorator once per page, with
  the page numbers from 1 on. An exception of any step leaves the method.
\<close>

definition generate_pdf ::
  "library \<Rightarrow> files \<Rightarrow> generator \<Rightarrow> exn + (pdf \<times> generator)" where
  "generate_pdf L fs g =
     (case build_story L (release_notes g) of
        Inl e \<Rightarrow> Inl e
      | Inr story \<Rightarrow>
          (let g1 = g\<lparr>total_pages := 37\<rparr> in
           case layout L story of
             Inl e \<Rightarrow> Inl e
           | Inr n \<Rightarrow>
               (case decorate_pages L fs g1 [1..<Suc n] of
                  (pages, g2) \<Rightarrow> Inr (\<lparr>pdf_story = story, pdf_pages = pages\<rparr>, g2))))"

section \<open>The source loader and \<^verbatim>\<open>main\<close>\<close>

text \<open>
  \<^verbatim>\<open>'releaseNotesList' in data\<close> and \<^verbatim>\<open>data['releaseNotesList']\<close> on what
  \<^verbatim>\<open>yaml.safe_load\<close> returned, and \<^verbatim>\<open>len\<close> of the value found. A mapping is the
  list of its items.
\<close>

definition py_in :: "ustring \<Rightarrow> yaml \<Rightarrow> exn + bool" where
  "py_in key data =
     (case data of
        YMap items \<Rightarrow> Inr (YStr key \<in> set (map fst items))
      | YSeq xs \<Rightarrow> Inr (YStr key \<in> set xs)
      | YStr s \<Rightarrow> Inr (contains key s)
      | _ \<Rightarrow> Inl TypeError)"

definition py_getitem :: "yaml \<Rightarrow> ustring \<Rightarrow> exn + yaml" where
  "py_getitem data key =
     (case data of
        YMap items \<Rightarrow> (case map_of items (YStr key) of Some v \<Rightarrow> Inr v | None \<Rightarrow> Inl KeyError)
      | _ \<Rightarrow> Inl TypeError)"

definition py_len :: "yaml \<Rightarrow> exn + nat" where
  "py_len v =
     (case v of
        YSeq xs \<Rightarrow> Inr (length xs)
      | YMap items \<Rightarrow> Inr (length items)
      | YStr s \<Rightarrow> Inr (length s)
      | _ \<Rightarrow> Inl TypeError)"

text \<open>
  The body of the \<^verbatim>\<open>try\<close> block of \<^verbatim>\<open>load_yaml_data\<close>: the value stored in
  \<^verbatim>\<open>self.release_notes\<close>, or the exception that the handler reports.
\<close>

definition load_yaml_data :: "library \<Rightarrow> files \<Rightarrow> generator \<Rightarrow> exn + yaml" where
  "load_yaml_data L fs g =
     (case fs (yaml_file_path g) of
        None \<Rightarrow> Inl FileNotFoundError
      | Some (Unreadable e) \<Rightarrow> Inl e
      | Some (PdfFile d) \<Rightarrow> Inl UnicodeDecodeError
      | Some (TextFile text) \<Rightarrow>
          (case yaml_safe_load L text of
             Inl e \<Rightarrow> Inl e
           | Inr data \<Rightarrow>
               (case py_in (lit ''releaseNotesList'') data of
                  Inl e \<Rightarrow> Inl e
                | Inr False \<Rightarrow> Inl ValueError
                | Inr True \<Rightarrow>
                    (case py_getitem data (lit ''releaseNotesList'') of
                       Inl e \<Rightarrow> Inl e
                     | Inr notes \<Rightarrow>
                         (case py_len notes of
                            Inl e \<Rightarrow> Inl e
                          | Inr n \<Rightarrow> Inr notes)))))"

text \<open>
  The loaded value as the release notes of the data model: a sequence of mappings.
  The version and the title are only written into f-strings, so a value of any kind
  stands for the text that the f-string writes for it. The date is upper-cased, so
  it is absent or holds a string. The full text is parsed when it is true in a
  condition, so it is absent, a string, or a value that is false in a condition,
  which is skipped like an absent one.
\<close>

definition note_field :: "(yaml \<times> yaml) list \<Rightarrow> ustring \<Rightarrow> ustring option option" where
  "note_field items key =
     (case map_of items (YStr key) of
        None \<Rightarrow> Some None
      | Some (YStr s) \<Rightarrow> Some (Some s)
      | Some _ \<Rightarrow> None)"

definition py_truthy :: "yaml \<Rightarrow> bool" where
  "py_truthy v =
     (case v of
        YNull \<Rightarrow> False
      | YBool b \<Rightarrow> b
      | YInt i \<Rightarrow> i \<noteq> 0
      | YFloat x \<Rightarrow> truthy x
      | YStr s \<Rightarrow> s \<noteq> []
      | YSeq xs \<Rightarrow> xs \<noteq> []
      | YMap items \<Rightarrow> items \<noteq> [])"

definition full_text_field :: "(yaml \<times> yaml) list \<Rightarrow> ustring option option" where
  "full_text_field items =
     (case map_of items (YStr (lit ''fullText'')) of
        None \<Rightarrow> Some None
      | Some (YStr s) \<Rightarrow> Some (Some s)
      | Some v \<Rightarrow> (if py_truthy v then None else Some None))"

definition formatted_field :: "library \<Rightarrow> (yaml \<times> yaml) list \<Rightarrow> ustring \<Rightarrow> ustring option" where
  "formatted_field L items key =
     (case map_of items (YStr key) of
        None \<Rightarrow> None
      | Some (YStr s) \<Rightarrow> Some s
      | Some v \<Rightarrow> Some (format_value L v))"

definition as_note :: "library \<Rightarrow> yaml \<Rightarrow> release_note option" where
  "as_note L v =
     (case v of
        YMap items \<Rightarrow>
          (case (note_field items (lit ''date''), full_text_field items) of
             (Some d, Some f) \<Rightarrow>
               Some \<lparr>version = formatted_field L items (lit ''version''),
                     title = formatted_field L items (lit ''title''),
                     date = d, fullText = f\<rparr>
           | _ \<Rightarrow> None)
      | _ \<Rightarrow> None)"

definition as_notes :: "library \<Rightarrow> yaml \<Rightarrow> release_note list option" where
  "as_notes L v = (case v of YSeq xs \<Rightarrow> those (map (as_note L) xs) | _ \<Rightarrow> None)"

text \<open>
  What a run of the script leaves: how the process ended, the files, and what it
  printed. \<^verbatim>\<open>sys.exit(1)\<close> ends the process with status 1; an exception that nothing
  catches ends it with a traceback. A loaded value outside the data model is not
  followed further: the outcome \<open>OutsideDataModel\<close> marks the end of what is modelled
  and says nothing about the run. The lines that \<^verbatim>\<open>generate_pdf\<close> prints per release
  note are left out. \<^verbatim>\<open>generate_pdf\<close> writes the file named by \<^verbatim>\<open>self.output_path\<close>.
\<close>

datatype outcome = Exit nat | Uncaught exn | OutsideDataModel

datatype message =
    MetadataPrinted
  | YamlFileNotFound ustring
  | ErrorLoadingYaml exn
  | LoadedEntries nat
  | GeneratingPdf
  | PdfGenerated ustring
  | AllDone

record run =
  run_outcome :: outcome
  run_files :: files
  run_stdout :: "message list"

definition main :: "library \<Rightarrow> files \<Rightarrow> run" where
  "main L fs =
     (let yaml_file = lit ''newsData.yaml''; output_file = lit ''CCDI_Hub_Release_Notes.pdf'' in
      if fs yaml_file = None then
        \<lparr>run_outcome = Exit 1, run_files = fs, run_stdout = [YamlFileNotFound yaml_file]\<rparr>
      else
        (let generator = init yaml_file (Some output_file) in
         case load_yaml_data L fs generator of
           Inl e \<Rightarrow>
             \<lparr>run_outcome = Exit 1, run_files = fs,
              run_stdout = [MetadataPrinted, ErrorLoadingYaml e]\<rparr>
         | Inr loaded \<Rightarrow>
             (case as_notes L loaded of
                None \<Rightarrow>
                  \<lparr>run_outcome = OutsideDataModel, run_files = fs,
                   run_stdout = [MetadataPrinted]\<rparr>
              | Some notes \<Rightarrow>
                  (case generate_pdf L fs (generator\<lparr>release_notes := notes\<rparr>) of
                     Inl e \<Rightarrow>
                       \<lparr>run_outcome = Uncaught e, run_files = fs,
                        run_stdout = [MetadataPrinted, LoadedEntries (length notes),
                                      GeneratingPdf]\<rparr>
                   | Inr (document, generator') \<Rightarrow>
                       \<lparr>run_outcome = Exit 0,
                        run_files = fs(output_path generator' \<mapsto> PdfFile document),
                        run_stdout = [MetadataPrinted, LoadedEntries (length notes),
                                      GeneratingPdf, PdfGenerated (output_path generator'),
                                      AllDone]\<rparr>))))"

section \<open>Reading a story\<close>

text \<open>
  The paragraphs a step appended, whether it raised or not; the styles the converter
  uses; the anchored titles of a story (its paragraphs in the style
  \<^verbatim>\<open>ReleaseTitle\<close>); and the rows of its tables below their header rows.
\<close>

definition emitted_flowables :: "emitted \<Rightarrow> flowable list" where
  "emitted_flowables r = (case r of Inl (e, xs) \<Rightarrow> xs | Inr xs \<Rightarrow> xs)"

definition content_style :: "flowable \<Rightarrow> bool" where
  "content_style f =
     (case f of
        Paragraph t st \<Rightarrow>
          st = SectionHeader \<or> st = SubsectionHeader \<or> st = ReleaseContent \<or> st = ListItem
      | _ \<Rightarrow> False)"

definition is_title :: "flowable \<Rightarrow> bool" where
  "is_title f = (case f of Paragraph t st \<Rightarrow> st = ReleaseTitle | _ \<Rightarrow> False)"

definition anchored_titles :: "flowable list \<Rightarrow> flowable list" where
  "anchored_titles story = filter is_title story"

definition table_rows :: "flowable \<Rightarrow> flowable list list" where
  "table_rows f = (case f of Table rows \<Rightarrow> tl rows | _ \<Rightarrow> [])"

definition toc_rows :: "flowable list \<Rightarrow> flowable list list" where
  "toc_rows story = concat (map table_rows story)"

text \<open>A paragraph whose markup text is not blank.\<close>

definition nonblank :: "flowable \<Rightarrow> bool" where
  "nonblank f = (case f of Paragraph t st \<Rightarrow> strip t \<noteq> [] | _ \<Rightarrow> False)"

section \<open>Example inputs\<close>

text \<open>
  A library for the examples: its parser knows the fragments listed in \<open>parses\<close> and
  returns the tree given for each, its paragraph constructor rejects the texts listed
  in \<open>rejected\<close>, every story is laid out on two pages, the SVG reader returns a
  drawing of 400 by 100, the float operations are exact on finite numbers, scaling
  multiplies the transformation matrix, and a loaded value that is not a string is
  written as a question mark.
\<close>

definition ascii_upper :: "ustring \<Rightarrow> ustring" where
  "ascii_upper s = map (\<lambda>c. if 97 \<le> c \<and> c \<le> 122 then c - 32 else c) s"

definition exact_div :: "pyfloat \<Rightarrow> pyfloat \<Rightarrow> pyfloat" where
  "exact_div x y =
     (case (x, y) of
        (Finite a, Finite b) \<Rightarrow> (if b = 0 then NaN else Finite (a / b))
      | _ \<Rightarrow> NaN)"

definition exact_mul :: "pyfloat \<Rightarrow> pyfloat \<Rightarrow> pyfloat" where
  "exact_mul x y = (case (x, y) of (Finite a, Finite b) \<Rightarrow> Finite (a * b) | _ \<Rightarrow> NaN)"

definition matrix_scale :: "pyfloat \<Rightarrow> pyfloat \<Rightarrow> drawing \<Rightarrow> drawing" where
  "matrix_scale sx sy d =
     (case transform d of
        (a, b, c, e, f, g) \<Rightarrow>
          d\<lparr>transform := (exact_mul a sx, exact_mul b sx, exact_mul c sy, exact_mul e sy, f, g)\<rparr>)"

definition example_drawing :: "real \<Rightarrow> real \<Rightarrow> drawing" where
  "example_drawing w h =
     \<lparr>width = Finite w, height = Finite h,
      transform = (Finite 1, Finite 0, Finite 0, Finite 1, Finite 0, Finite 0)\<rparr>"

definition example_library :: "(ustring \<times> node list) list \<Rightarrow> ustring list \<Rightarrow> library" where
  "example_library parses rejected =
     \<lparr>BeautifulSoup =
        (\<lambda>h. case map_of parses h of Some soup \<Rightarrow> Inr soup | None \<Rightarrow> Inl LibraryError),
      para_accepts = (\<lambda>t. t \<notin> set rejected),
      str_upper = ascii_upper,
      layout = (\<lambda>story. Inr 2),
      svg2rlg = (\<lambda>p. Inr (Some (example_drawing 400 100))),
      drawing_scale = matrix_scale,
      draws_drawing = (\<lambda>d. True),
      draws_image = (\<lambda>p. True),
      float_div = exact_div,
      float_mul = exact_mul,
      yaml_safe_load = (\<lambda>t. Inr (YMap [(YStr (lit ''title''), YStr t)])),
      format_value = (\<lambda>v. lit ''?'')\<rparr>"

text \<open>The example library with an SVG reader that returns a drawing of 300 by 0.\<close>

definition flat_library :: library where
  "flat_library = (example_library [] [])\<lparr>svg2rlg := \<lambda>p. Inr (Some (example_drawing 300 0))\<rparr>"

text \<open>The example library with a YAML reader that returns one release note.\<close>

definition loaded_library :: library where
  "loaded_library =
     (example_library [] [])\<lparr>yaml_safe_load :=
        \<lambda>t. Inr (YMap [(YStr (lit ''releaseNotesList''),
                          YSeq [YMap [(YStr (lit ''title''), YStr t)]])])\<rparr>"

definition example_notes :: "release_note list" where
  "example_notes =
     [\<lparr>version = Some (lit ''1.0''), title = Some (lit ''First''),
       date = Some (lit ''May 2024''), fullText = None\<rparr>,
      \<lparr>version = None, title = None, date = None, fullText = Some (lit ''plain'')\<rparr>]"

text \<open>
  The fragments of the examples, each with the tree that the parser builds for it: a
  list with a nested list, a paragraph with the heading style written with and without
  the space after each colon, an ordered list alone and inside an item of an unordered
  list, a paragraph whose text (\<^verbatim>\<open><b>oops\<close>, an opening tag that is never closed) the
  paragraph constructor rejects, and a list item whose text starts with a colon.
\<close>

definition nested_fragment :: ustring where
  "nested_fragment = lit ''<ul><li>Group A: <ul><li>X</li><li>Y</li></ul></li></ul>''"

definition nested_soup :: "node list" where
  "nested_soup =
     [Tag (lit ''ul'') []
        [Tag (lit ''li'') []
           [NavigableString (lit ''Group A: ''),
            Tag (lit ''ul'') []
              [Tag (lit ''li'') [] [NavigableString (lit ''X'')],
               Tag (lit ''li'') [] [NavigableString (lit ''Y'')]]]]]"

definition overview_fragment :: ustring where
  "overview_fragment =
     lit ''<p style='' @ dq @ lit ''color: #2f5496; font-size: 16pt'' @ dq @ lit ''>Overview</p>''"

definition overview_soup :: "node list" where
  "overview_soup =
     [Tag (lit ''p'') [(lit ''style'', lit ''color: #2f5496; font-size: 16pt'')]
        [NavigableString (lit ''Overview'')]]"

definition unspaced_fragment :: ustring where
  "unspaced_fragment =
     lit ''<p style='' @ dq @ lit ''color:#2f5496; font-size:16pt'' @ dq @ lit ''>Overview</p>''"

definition unspaced_soup :: "node list" where
  "unspaced_soup =
     [Tag (lit ''p'') [(lit ''style'', lit ''color:#2f5496; font-size:16pt'')]
        [NavigableString (lit ''Overview'')]]"

definition ordered_in_unordered_fragment :: ustring where
  "ordered_in_unordered_fragment = lit ''<ul><li>A<ol><li>B</li></ol></li></ul>''"

definition ordered_in_unordered_soup :: "node list" where
  "ordered_in_unordered_soup =
     [Tag (lit ''ul'') []
        [Tag (lit ''li'') []
           [NavigableString (lit ''A''),
            Tag (lit ''ol'') [] [Tag (lit ''li'') [] [NavigableString (lit ''B'')]]]]]"

definition rejected_fragment :: ustring where
  "rejected_fragment = lit ''<p>ok</p><p>&lt;b&gt;oops</p>''"

definition rejected_soup :: "node list" where
  "rejected_soup =
     [Tag (lit ''p'') [] [NavigableString (lit ''ok'')],
      Tag (lit ''p'') [] [NavigableString (lit ''<b>oops'')]]"

definition colon_first_fragment :: ustring where
  "colon_first_fragment = lit ''<ul><li>: see below<ul><li>X</li></ul></li></ul>''"

definition colon_first_soup :: "node list" where
  "colon_first_soup =
     [Tag (lit ''ul'') []
        [Tag (lit ''li'') []
           [NavigableString (lit '': see below''),
            Tag (lit ''ul'') [] [Tag (lit ''li'') [] [NavigableString (lit ''X'')]]]]]"

definition ordered_fragment :: ustring where
  "ordered_fragment = lit ''<ol><li>B</li></ol>''"

definition ordered_soup :: "node list" where
  "ordered_soup = [Tag (lit ''ol'') [] [Tag (lit ''li'') [] [NavigableString (lit ''B'')]]]"

section \<open>The substring test\<close>

text \<open>\<open>contains\<close> is the substring relation of Python's \<^verbatim>\<open>in\<close> on strings.\<close>

lemma starts_with_iff: "starts_with sub s \<longleftrightarrow> (\<exists>v. s = sub @ v)"
  by (induction sub s rule: starts_with.induct) auto

lemma contains_iff: "contains sub s \<longleftrightarrow> (\<exists>u v. s = u @ sub @ v)"
proof (induction s)
  case Nil
  show ?case by auto
next
  case (Cons c cs)
  show ?case
  proof
    assume "contains sub (c # cs)"
    then consider "starts_with sub (c # cs)" | "contains sub cs" by auto
    then show "\<exists>u v. c # cs = u @ sub @ v"
    proof cases
      case 1
      then obtain v where "c # cs = sub @ v" by (auto simp: starts_with_iff)
      then have "c # cs = [] @ sub @ v" by simp
      then show ?thesis by blast
    next
      case 2
      with Cons.IH obtain u v where "cs = u @ sub @ v" by blast
      then have "c # cs = (c # u) @ sub @ v" by simp
      then show ?thesis by blast
    qed
  next
    assume "\<exists>u v. c # cs = u @ sub @ v"
    then obtain u v where e: "c # cs = u @ sub @ v" by blast
    show "contains sub (c # cs)"
    proof (cases u)
      case Nil
      with e have "starts_with sub (c # cs)" by (auto simp: starts_with_iff)
      then show ?thesis by simp
    next
      case (Cons d u')
      with e have "cs = u' @ sub @ v" by simp
      with Cons.IH have "contains sub cs" by blast
      then show ?thesis by simp
    qed
  qed
qed

section \<open>What the converter appends\<close>

lemma emitted_and_then:
  "list_all P (emitted_flowables a) \<Longrightarrow> list_all P (emitted_flowables b) \<Longrightarrow>
   list_all P (emitted_flowables (and_then a b))"
  by (auto simp: and_then_def emitted_flowables_def split: sum.splits prod.splits)

lemma emitted_for_each:
  "(\<And>x. x \<in> set xs \<Longrightarrow> list_all P (emitted_flowables (f x))) \<Longrightarrow>
   list_all P (emitted_flowables (for_each f xs))"
proof (induction xs)
  case Nil
  show ?case by (simp add: emitted_flowables_def)
next
  case (Cons x xs)
  show ?case
    unfolding for_each.simps
    by (rule emitted_and_then) (simp_all add: Cons)
qed

lemma content_append_Paragraph:
  "st = SectionHeader \<or> st = SubsectionHeader \<or> st = ReleaseContent \<or> st = ListItem \<Longrightarrow>
   list_all content_style (emitted_flowables (append_Paragraph L t st))"
  by (simp add: append_Paragraph_def emitted_flowables_def content_style_def)

lemma content_nothing: "list_all P (emitted_flowables (Inr []))"
  by (simp add: emitted_flowables_def)

lemma content_nested_item: "list_all content_style (emitted_flowables (nested_item L n))"
  by (simp add: nested_item_def Let_def content_append_Paragraph content_nothing)

lemma content_list_item: "list_all content_style (emitted_flowables (list_item L n))"
  by (simp add: list_item_def Let_def content_append_Paragraph content_nothing
      emitted_and_then emitted_for_each content_nested_item split: option.splits)

lemma content_handle_element: "list_all content_style (emitted_flowables (handle_element L ce))"
  by (simp add: handle_element_def Let_def content_append_Paragraph content_nothing
      emitted_for_each content_list_item)

lemma content_try_block: "list_all content_style (emitted_flowables (try_block L h))"
proof (cases "BeautifulSoup L h")
  case (Inl e)
  then show ?thesis by (simp add: try_block_def emitted_flowables_def)
next
  case (Inr soup)
  then show ?thesis
    by (simp add: try_block_def emitted_for_each content_handle_element)
qed

lemma content_parse_html_content:
  "parse_html_content L h = Inr els \<Longrightarrow> list_all content_style els"
  using content_try_block [of L h]
  by (auto simp: parse_html_content_def Let_def emitted_flowables_def content_style_def
      split: if_splits sum.splits prod.splits)

section \<open>The table of contents and the sections\<close>

lemma map_exn_Inr:
  "map_exn f xs = Inr ys \<Longrightarrow> length ys = length xs \<and> (\<forall>i<length xs. f (xs ! i) = Inr (ys ! i))"
proof (induction xs arbitrary: ys)
  case Nil
  then show ?case by simp
next
  case (Cons x xs)
  from Cons.prems obtain y ys' where fx: "f x = Inr y" and rest: "map_exn f xs = Inr ys'"
    and ys: "ys = y # ys'"
    by (auto split: sum.splits)
  from Cons.IH [OF rest] have len: "length ys' = length xs"
    and nth: "\<forall>i<length xs. f (xs ! i) = Inr (ys' ! i)" by simp_all
  show ?case
  proof (intro conjI allI impI)
    show "length ys = length (x # xs)" using len ys by simp
  next
    fix i assume "i < length (x # xs)"
    then show "f ((x # xs) ! i) = Inr (ys ! i)"
      using fx nth ys by (cases i) simp_all
  qed
qed

lemma map_exn_total:
  "(\<And>x. x \<in> set xs \<Longrightarrow> \<exists>y. f x = Inr y) \<Longrightarrow> \<exists>ys. map_exn f xs = Inr ys"
proof (induction xs)
  case Nil
  show ?case by simp
next
  case (Cons x xs)
  from Cons.prems [of x] obtain y where "f x = Inr y" by auto
  moreover from Cons.IH Cons.prems obtain ys where "map_exn f xs = Inr ys" by auto
  ultimately show ?case by simp
qed

lemma enumerate_list_length: "length (enumerate_list xs) = length xs"
  by (simp add: enumerate_list_def)

lemma enumerate_list_nth: "i < length xs \<Longrightarrow> enumerate_list xs ! i = (i, xs ! i)"
  by (simp add: enumerate_list_def)

lemma concat_singletons:
  "length ys = length xs \<Longrightarrow> (\<forall>i<length xs. F (xs ! i) = [ys ! i]) \<Longrightarrow> concat (map F xs) = ys"
proof (induction ys xs rule: list_induct2)
  case Nil
  show ?case by simp
next
  case (Cons y ys x xs)
  from Cons.prems have "F x = [y]" by auto
  moreover from Cons.prems have "\<forall>i<length xs. F (xs ! i) = [ys ! i]" by auto
  ultimately show ?case using Cons.IH by simp
qed

lemma mk_Paragraph_Inr: "mk_Paragraph L t st = Inr p \<Longrightarrow> p = Paragraph t st"
  by (simp add: mk_Paragraph_def split: if_splits)

lemma content_not_title: "list_all content_style els \<Longrightarrow> filter is_title els = []"
  by (induction els) (auto simp: content_style_def is_title_def split: flowable.splits)

lemma toc_row_Inr:
  "toc_row L (i, note) = Inr row \<Longrightarrow>
   row = [Paragraph (toc_link i (dict_get (version note) (lit ''N/A''))) ListItem,
          Paragraph (dict_get (date note) (lit ''Unknown Date'')) ListItem]"
  by (auto simp: toc_row_def Let_def split: sum.splits dest!: mk_Paragraph_Inr)

lemma release_section_Inr:
  assumes "release_section L n (i, note) = Inr fs"
  shows "\<exists>content. list_all content_style content \<and>
     fs = [Paragraph (section_title i (dict_get (title note) (lit ''Unknown Release''))) ReleaseTitle,
           Paragraph (lit ''<b>DATE OF RELEASE:</b> '' @
             str_upper L (dict_get (date note) (lit ''Unknown Date''))) ReleaseDate,
           Spacer 1 (0.05 * inch)] @ content @ (if int i < int n - 1 then [PageBreak] else [])"
proof -
  define full_text where "full_text = dict_get (fullText note) []"
  define body where "body = (if full_text \<noteq> [] then parse_html_content L full_text else Inr [])"
  from assms obtain tp dp content where
    tp: "mk_Paragraph L (section_title i (dict_get (title note) (lit ''Unknown Release''))) ReleaseTitle = Inr tp"
    and dp: "mk_Paragraph L (lit ''<b>DATE OF RELEASE:</b> '' @ str_upper L (dict_get (date note) (lit ''Unknown Date''))) ReleaseDate = Inr dp"
    and content: "body = Inr content"
    and fs: "fs = [tp, dp, Spacer 1 (0.05 * inch)] @ content @ (if int i < int n - 1 then [PageBreak] else [])"
    unfolding release_section_def Let_def fst_conv snd_conv body_def full_text_def
    by (simp split: sum.splits)
  have "list_all content_style content"
    using content content_parse_html_content [of L full_text content]
    by (simp add: body_def split: if_splits)
  then show ?thesis
    using mk_Paragraph_Inr [OF tp] mk_Paragraph_Inr [OF dp] fs by blast
qed

lemma content_no_rows: "list_all content_style els \<Longrightarrow> toc_rows els = []"
  by (induction els) (auto simp: content_style_def toc_rows_def table_rows_def split: flowable.splits)

lemma toc_rows_append: "toc_rows (xs @ ys) = toc_rows xs @ toc_rows ys"
  by (simp add: toc_rows_def)

lemma release_section_titles:
  assumes "release_section L n (i, note) = Inr fs"
  shows "anchored_titles fs =
         [Paragraph (section_title i (dict_get (title note) (lit ''Unknown Release''))) ReleaseTitle]"
proof -
  from release_section_Inr [OF assms] obtain content where c: "list_all content_style content"
    and fs: "fs = [Paragraph (section_title i (dict_get (title note) (lit ''Unknown Release''))) ReleaseTitle,
           Paragraph (lit ''<b>DATE OF RELEASE:</b> '' @
             str_upper L (dict_get (date note) (lit ''Unknown Date''))) ReleaseDate,
           Spacer 1 (0.05 * inch)] @ content @ (if int i < int n - 1 then [PageBreak] else [])"
    by blast
  have "filter is_title content = []" using c by (rule content_not_title)
  then show ?thesis
    unfolding fs anchored_titles_def by (simp add: is_title_def)
qed

lemma release_section_rows:
  assumes "release_section L n (i, note) = Inr fs"
  shows "toc_rows fs = []"
proof -
  from release_section_Inr [OF assms] obtain content where c: "list_all content_style content"
    and fs: "fs = [Paragraph (section_title i (dict_get (title note) (lit ''Unknown Release''))) ReleaseTitle,
           Paragraph (lit ''<b>DATE OF RELEASE:</b> '' @
             str_upper L (dict_get (date note) (lit ''Unknown Date''))) ReleaseDate,
           Spacer 1 (0.05 * inch)] @ content @ (if int i < int n - 1 then [PageBreak] else [])"
    by blast
  have "toc_rows content = []" using c by (rule content_no_rows)
  then show ?thesis
    unfolding fs toc_rows_append by (simp add: toc_rows_def table_rows_def)
qed

lemma anchored_titles_concat:
  "anchored_titles (concat xss) = concat (map anchored_titles xss)"
  by (induction xss) (simp_all add: anchored_titles_def)

lemma anchored_titles_append:
  "anchored_titles (xs @ ys) = anchored_titles xs @ anchored_titles ys"
  by (simp add: anchored_titles_def)

lemma create_table_of_contents_rows:
  assumes "create_table_of_contents L notes = Inr t"
  shows "length (table_rows t) = length notes \<and>
    (\<forall>i<length notes. table_rows t ! i =
       [Paragraph (toc_link i (dict_get (version (notes ! i)) (lit ''N/A''))) ListItem,
        Paragraph (dict_get (date (notes ! i)) (lit ''Unknown Date'')) ListItem])"
proof -
  from assms obtain vh dh rows where rows: "map_exn (toc_row L) (enumerate_list notes) = Inr rows"
    and t: "t = Table ([vh, dh] # rows)"
    by (auto simp: create_table_of_contents_def split: sum.splits)
  from map_exn_Inr [OF rows] have len: "length rows = length notes"
    and nth: "\<forall>i<length notes. toc_row L (enumerate_list notes ! i) = Inr (rows ! i)"
    by (simp_all add: enumerate_list_length)
  have "table_rows t = rows" by (simp add: t table_rows_def)
  moreover have "\<forall>i<length notes. rows ! i =
       [Paragraph (toc_link i (dict_get (version (notes ! i)) (lit ''N/A''))) ListItem,
        Paragraph (dict_get (date (notes ! i)) (lit ''Unknown Date'')) ListItem]"
    using nth by (auto simp: enumerate_list_nth dest!: toc_row_Inr)
  ultimately show ?thesis using len by simp
qed

lemma build_story_sections:
  assumes "build_story L notes = Inr story"
  shows "toc_rows story = map (\<lambda>i. [Paragraph (toc_link i (dict_get (version (notes ! i)) (lit ''N/A''))) ListItem,
        Paragraph (dict_get (date (notes ! i)) (lit ''Unknown Date'')) ListItem]) [0..<length notes]"
    and "anchored_titles story = map (\<lambda>i. Paragraph (section_title i (dict_get (title (notes ! i)) (lit ''Unknown Release''))) ReleaseTitle) [0..<length notes]"
proof -
  from assms obtain th tt sections where
    th: "mk_Paragraph L (lit ''Table of Contents'') SectionHeader = Inr th"
    and tt: "create_table_of_contents L notes = Inr tt"
    and secs: "map_exn (release_section L (length notes)) (enumerate_list notes) = Inr sections"
    and story: "story = [th, Spacer 1 (0.2 * inch), tt, PageBreak] @ concat sections"
    by (auto simp: build_story_def split: sum.splits)
  from map_exn_Inr [OF secs] have len: "length sections = length notes"
    and nth: "\<forall>i<length notes. release_section L (length notes) (enumerate_list notes ! i) = Inr (sections ! i)"
    by (simp_all add: enumerate_list_length)
  have sec_titles: "\<forall>i<length sections. anchored_titles (sections ! i) =
      [map (\<lambda>i. Paragraph (section_title i (dict_get (title (notes ! i)) (lit ''Unknown Release''))) ReleaseTitle) [0..<length notes] ! i]"
    using nth len by (auto simp: enumerate_list_nth dest!: release_section_titles)
  have "concat (map anchored_titles sections) =
      map (\<lambda>i. Paragraph (section_title i (dict_get (title (notes ! i)) (lit ''Unknown Release''))) ReleaseTitle) [0..<length notes]"
    by (rule concat_singletons) (use len sec_titles in simp_all)
  moreover have "anchored_titles [th, Spacer 1 (0.2 * inch), tt, PageBreak] = []"
    using mk_Paragraph_Inr [OF th] tt
    by (auto simp: anchored_titles_def is_title_def create_table_of_contents_def split: sum.splits)
  ultimately show "anchored_titles story = map (\<lambda>i. Paragraph (section_title i (dict_get (title (notes ! i)) (lit ''Unknown Release''))) ReleaseTitle) [0..<length notes]"
    unfolding story anchored_titles_append anchored_titles_concat by simp
  have sec_rows: "\<forall>s \<in> set sections. toc_rows s = []"
  proof
    fix s assume "s \<in> set sections"
    then obtain i where i: "i < length notes" and s: "s = sections ! i"
      using len by (auto simp: in_set_conv_nth)
    from nth i s have "release_section L (length notes) (i, notes ! i) = Inr s"
      by (simp add: enumerate_list_nth)
    then show "toc_rows s = []" by (rule release_section_rows)
  qed
  have "toc_rows (concat sections) = []"
    using sec_rows by (induction sections) (simp_all add: toc_rows_def)
  then have "toc_rows story = table_rows tt"
    using mk_Paragraph_Inr [OF th]
    by (simp add: story toc_rows_def table_rows_def)
  then show "toc_rows story = map (\<lambda>i. [Paragraph (toc_link i (dict_get (version (notes ! i)) (lit ''N/A''))) ListItem,
        Paragraph (dict_get (date (notes ! i)) (lit ''Unknown Date'')) ListItem]) [0..<length notes]"
    using create_table_of_contents_rows [OF tt]
    by (intro nth_equalityI) simp_all
qed

lemma str_nat_value: "foldl (\<lambda>acc c. 10 * acc + (c - 48)) 0 (str_nat n) = n"
proof (induction n rule: str_nat.induct)
  case (1 n)
  show ?case
  proof (cases "n < 10")
    case True
    then show ?thesis by (subst str_nat.simps) simp
  next
    case False
    with "1.IH" show ?thesis by (subst str_nat.simps) simp
  qed
qed

lemma str_nat_inj: "str_nat i = str_nat j \<Longrightarrow> i = j"
  by (metis str_nat_value)

lemma anchor_name_inj: "anchor_name i = anchor_name j \<Longrightarrow> i = j"
  by (simp add: anchor_name_def str_nat_inj)

lemma parse_html_content_total:
  "(\<And>t. para_accepts L t) \<Longrightarrow> \<exists>els. parse_html_content L h = Inr els"
  by (simp add: parse_html_content_def Let_def split: sum.splits prod.splits)

lemma build_story_total:
  assumes acc: "\<And>t. para_accepts L t"
  shows "\<exists>story. build_story L notes = Inr story"
proof -
  have p: "\<And>t st. mk_Paragraph L t st = Inr (Paragraph t st)"
    by (simp add: mk_Paragraph_def acc)
  have "\<exists>rows. map_exn (toc_row L) (enumerate_list notes) = Inr rows"
    by (rule map_exn_total) (simp add: toc_row_def Let_def p)
  then obtain rows where rows: "map_exn (toc_row L) (enumerate_list notes) = Inr rows" ..
  have "\<exists>secs. map_exn (release_section L (length notes)) (enumerate_list notes) = Inr secs"
  proof (rule map_exn_total)
    fix x :: "nat \<times> release_note"
    obtain els where "(if dict_get (fullText (snd x)) [] \<noteq> []
       then parse_html_content L (dict_get (fullText (snd x)) []) else Inr []) = Inr els"
      using parse_html_content_total [of L, OF acc] by (metis (full_types))
    then show "\<exists>y. release_section L (length notes) x = Inr y"
      by (simp add: release_section_def Let_def p)
  qed
  then obtain secs where "map_exn (release_section L (length notes)) (enumerate_list notes) = Inr secs" ..
  with rows show ?thesis
    by (simp add: build_story_def create_table_of_contents_def p)
qed

text \<open>
  Claim C1. Whenever the assembler returns a story for the loaded release notes, the
  story has one row of the table of contents per note and one anchored title per note,
  in the order of the notes: row \<open>i\<close> holds the link to the anchor
  \<^verbatim>\<open>release_i\<close> around the version of note \<open>i\<close> and the date of note \<open>i\<close>, and the
  \<open>i\<close>-th anchored title carries that same anchor \<^verbatim>\<open>release_i\<close> in front of the
  title of note \<open>i\<close>. The assembler does return a story when the paragraph constructor
  accepts every text, and different indices have different anchors.
\<close>

theorem toc_rows_match_sections:
  "(\<forall>story. build_story L notes = Inr story \<longrightarrow>
      length (toc_rows story) = length notes \<and>
      length (anchored_titles story) = length notes \<and>
      (\<forall>i<length notes.
         toc_rows story ! i =
           [Paragraph (lit ''<link href='' @ dq @ lit ''#'' @ anchor_name i @ dq @
                       lit '' color='' @ dq @ lit ''blue'' @ dq @ lit ''>'' @
                       dict_get (version (notes ! i)) (lit ''N/A'') @ lit ''</link>'') ListItem,
            Paragraph (dict_get (date (notes ! i)) (lit ''Unknown Date'')) ListItem] \<and>
         anchored_titles story ! i =
           Paragraph (lit ''<a name='' @ dq @ anchor_name i @ dq @ lit ''></a>'' @
                      dict_get (title (notes ! i)) (lit ''Unknown Release'')) ReleaseTitle)) \<and>
   ((\<forall>t. para_accepts L t) \<longrightarrow> (\<exists>story. build_story L notes = Inr story)) \<and>
   (\<forall>i j. anchor_name i = anchor_name j \<longrightarrow> i = j)"
proof (intro conjI allI impI)
  fix story assume s: "build_story L notes = Inr story"
  show "length (toc_rows story) = length notes"
    by (simp add: build_story_sections(1) [OF s])
  show "length (anchored_titles story) = length notes"
    by (simp add: build_story_sections(2) [OF s])
  fix i assume i: "i < length notes"
  show "toc_rows story ! i =
           [Paragraph (lit ''<link href='' @ dq @ lit ''#'' @ anchor_name i @ dq @
                       lit '' color='' @ dq @ lit ''blue'' @ dq @ lit ''>'' @
                       dict_get (version (notes ! i)) (lit ''N/A'') @ lit ''</link>'') ListItem,
            Paragraph (dict_get (date (notes ! i)) (lit ''Unknown Date'')) ListItem]"
    using i by (simp add: build_story_sections(1) [OF s] toc_link_def)
  show "anchored_titles story ! i =
           Paragraph (lit ''<a name='' @ dq @ anchor_name i @ dq @ lit ''></a>'' @
                      dict_get (title (notes ! i)) (lit ''Unknown Release'')) ReleaseTitle"
    using i by (simp add: build_story_sections(2) [OF s] section_title_def)
next
  assume "\<forall>t. para_accepts L t"
  then show "\<exists>story. build_story L notes = Inr story"
    by (intro build_story_total) simp
next
  fix i j assume "anchor_name i = anchor_name j"
  then show "i = j" by (rule anchor_name_inj)
qed

lemma anchor_1: "anchor_name (Suc 0) = lit ''release_1''"
  by (simp add: anchor_name_def str_nat.simps lit_def)

theorem toc_rows_match_sections_witness:
  "\<exists>story. build_story (example_library [] []) example_notes = Inr story \<and>
     length (toc_rows story) = 2 \<and> length (anchored_titles story) = 2 \<and>
     toc_rows story ! 1 =
       [Paragraph (lit ''<link href='' @ dq @ lit ''#release_1'' @ dq @ lit '' color='' @ dq @
                   lit ''blue'' @ dq @ lit ''>N/A</link>'') ListItem,
        Paragraph (lit ''Unknown Date'') ListItem] \<and>
     anchored_titles story ! 1 =
       Paragraph (lit ''<a name='' @ dq @ lit ''release_1'' @ dq @ lit ''></a>Unknown Release'')
         ReleaseTitle \<and>
     anchor_name 0 \<noteq> anchor_name 1"
proof -
  have acc: "\<forall>t. para_accepts (example_library [] []) t"
    by (simp add: example_library_def)
  note main_fact = toc_rows_match_sections [of "example_library [] []" example_notes]
  from main_fact acc obtain story where s: "build_story (example_library [] []) example_notes = Inr story"
    by blast
  have len: "length example_notes = 2" by (simp add: example_notes_def)
  from main_fact s len have "length (toc_rows story) = 2" "length (anchored_titles story) = 2"
    by simp_all
  moreover from main_fact s len have "toc_rows story ! 1 =
           [Paragraph (lit ''<link href='' @ dq @ lit ''#'' @ anchor_name 1 @ dq @
                       lit '' color='' @ dq @ lit ''blue'' @ dq @ lit ''>'' @
                       dict_get (version (example_notes ! 1)) (lit ''N/A'') @ lit ''</link>'') ListItem,
            Paragraph (dict_get (date (example_notes ! 1)) (lit ''Unknown Date'')) ListItem] \<and>
         anchored_titles story ! 1 =
           Paragraph (lit ''<a name='' @ dq @ anchor_name 1 @ dq @ lit ''></a>'' @
                      dict_get (title (example_notes ! 1)) (lit ''Unknown Release'')) ReleaseTitle"
    by simp
  moreover from main_fact have "anchor_name 0 \<noteq> anchor_name 1"
    by (metis zero_neq_one)
  ultimately show ?thesis
    using s by (simp add: anchor_1 example_notes_def dict_get_def lit_def)
qed


section \<open>The page counter of the footer\<close>

lemma get_logo_drawing_total_pages:
  "total_pages (snd (get_logo_drawing L fs g h)) = total_pages g"
  by (simp add: get_logo_drawing_def Let_def)

lemma create_header_footer_page:
  assumes "create_header_footer L fs g n = (p, g')"
  shows "total_pages g' = total_pages g \<and>
         page_text p = lit ''Page '' @ str_nat n @ lit '' of '' @ str_nat (total_pages g)"
proof -
  obtain d g1 where l: "get_logo_drawing L fs g (Finite 50) = (d, g1)" by (cases "get_logo_drawing L fs g (Finite 50)")
  with get_logo_drawing_total_pages [of L fs g "Finite 50"] have t: "total_pages g1 = total_pages g" by simp
  from assms l have "g' = g1" and "page_text p = lit ''Page '' @ str_nat n @ lit '' of '' @ str_nat (total_pages g1)"
    by (auto simp: create_header_footer_def)
  with t show ?thesis by simp
qed

lemma decorate_pages_texts:
  "decorate_pages L fs g ns = (ps, g') \<Longrightarrow>
   total_pages g' = total_pages g \<and>
   map page_text ps = map (\<lambda>n. lit ''Page '' @ str_nat n @ lit '' of '' @ str_nat (total_pages g)) ns"
proof (induction ns arbitrary: g ps g')
  case Nil
  then show ?case by simp
next
  case (Cons n ns)
  obtain p g1 where h: "create_header_footer L fs g n = (p, g1)"
    by (cases "create_header_footer L fs g n")
  obtain ps1 g2 where r: "decorate_pages L fs g1 ns = (ps1, g2)"
    by (cases "decorate_pages L fs g1 ns")
  from Cons.prems h r have ps: "ps = p # ps1" and g': "g' = g2" by simp_all
  from create_header_footer_page [OF h] Cons.IH [OF r] show ?case
    by (simp add: ps g')
qed

lemma decorate_pages_output_path:
  "decorate_pages L fs g ns = (ps, g') \<Longrightarrow> output_path g' = output_path g"
proof (induction ns arbitrary: g ps g')
  case Nil
  then show ?case by simp
next
  case (Cons n ns)
  obtain p g1 where h: "create_header_footer L fs g n = (p, g1)"
    by (cases "create_header_footer L fs g n")
  obtain ps1 g2 where r: "decorate_pages L fs g1 ns = (ps1, g2)"
    by (cases "decorate_pages L fs g1 ns")
  from Cons.prems h r have g': "g' = g2" by simp
  have "output_path g1 = output_path g"
    using h by (auto simp: create_header_footer_def get_logo_drawing_def Let_def split: if_splits)
  with Cons.IH [OF r] show ?case by (simp add: g')
qed

lemma generate_pdf_output_path:
  "generate_pdf L fs g = Inr (doc, g') \<Longrightarrow> output_path g' = output_path g"
  by (auto simp: generate_pdf_def Let_def split: sum.splits prod.splits
      dest!: decorate_pages_output_path)

lemma str_nat_37: "str_nat 37 = lit ''37''"
  by (simp add: str_nat.simps lit_def)

lemma generate_pdf_total:
  "build_story L (release_notes g) = Inr story \<Longrightarrow> layout L story = Inr n \<Longrightarrow>
   \<exists>doc g'. generate_pdf L fs g = Inr (doc, g')"
  by (simp add: generate_pdf_def Let_def split: prod.splits)

text \<open>
  Claim C4. Whenever \<^verbatim>\<open>generate_pdf\<close> returns, \<^verbatim>\<open>total_pages\<close> is 37, the document
  has as many pages as the layout engine made of the story, and the footer of the
  \<open>n\<close>-th page reads \<^verbatim>\<open>Page n of 37\<close>. The number 37 is assigned before the layout runs
  and is the same for every list of release notes, every library and every number of
  pages.
\<close>

theorem footer_total_is_constant:
  assumes "generate_pdf L fs g = Inr (doc, g')"
  shows "total_pages g' = 37 \<and>
         layout L (pdf_story doc) = Inr (length (pdf_pages doc)) \<and>
         map page_text (pdf_pages doc) =
           map (\<lambda>n. lit ''Page '' @ str_nat n @ lit '' of 37'') [1..<Suc (length (pdf_pages doc))]"
proof -
  from assms obtain story n pages where
    story: "build_story L (release_notes g) = Inr story"
    and n: "layout L story = Inr n"
    and d: "decorate_pages L fs (g\<lparr>total_pages := 37\<rparr>) [1..<Suc n] = (pages, g')"
    and doc: "doc = \<lparr>pdf_story = story, pdf_pages = pages\<rparr>"
    by (auto simp: generate_pdf_def Let_def split: sum.splits prod.splits)
  from decorate_pages_texts [OF d] have t: "total_pages g' = 37"
    and m: "map page_text pages = map (\<lambda>n. lit ''Page '' @ str_nat n @ lit '' of '' @ str_nat 37) [1..<Suc n]"
    by simp_all
  have "length (map page_text pages) = length [1..<Suc n]"
    by (simp only: m length_map)
  then have len: "length pages = n" by simp
  have "lit '' of '' @ str_nat 37 = lit '' of 37''" by (simp add: str_nat_37 lit_def)
  with m have "map page_text pages = map (\<lambda>n. lit ''Page '' @ str_nat n @ lit '' of 37'') [1..<Suc n]"
    by simp
  with t n len show ?thesis by (simp add: doc)
qed

theorem footer_total_is_constant_witness:
  "\<exists>doc g'. generate_pdf (example_library [] []) (\<lambda>f. None)
       ((init (lit ''newsData.yaml'') (Some (lit ''out.pdf'')))\<lparr>release_notes := example_notes\<rparr>) = Inr (doc, g') \<and>
     total_pages g' = 37 \<and>
     map page_text (pdf_pages doc) = [lit ''Page 1 of 37'', lit ''Page 2 of 37'']"
proof -
  define g where "g = (init (lit ''newsData.yaml'') (Some (lit ''out.pdf'')))\<lparr>release_notes := example_notes\<rparr>"
  have acc: "\<And>t. para_accepts (example_library [] []) t"
    by (simp add: example_library_def)
  from build_story_total [of "example_library [] []" "release_notes g", OF acc]
  obtain story where s: "build_story (example_library [] []) (release_notes g) = Inr story" ..
  have l: "layout (example_library [] []) story = Inr 2" by (simp add: example_library_def)
  from generate_pdf_total [OF s l] obtain doc g' where
    r: "generate_pdf (example_library [] []) (\<lambda>f. None) g = Inr (doc, g')" by blast
  from footer_total_is_constant [OF r] have t: "total_pages g' = 37"
    and lay: "layout (example_library [] []) (pdf_story doc) = Inr (length (pdf_pages doc))"
    and m: "map page_text (pdf_pages doc) =
           map (\<lambda>n. lit ''Page '' @ str_nat n @ lit '' of 37'') [1..<Suc (length (pdf_pages doc))]"
    by simp_all
  from lay have "length (pdf_pages doc) = 2" by (simp add: example_library_def)
  with m have "map page_text (pdf_pages doc) = [lit ''Page 1 of 37'', lit ''Page 2 of 37'']"
    by (simp add: upt_rec str_nat.simps lit_def)
  with r t show ?thesis unfolding g_def by (intro exI [of _ doc] exI [of _ g'] conjI)
qed

section \<open>Loading fails\<close>

lemma load_yaml_data_no_key:
  assumes "fs (yaml_file_path g) = Some (TextFile text)"
    and "yaml_safe_load L text = Inr data"
    and "\<not> (\<exists>items v. data = YMap items \<and> map_of items (YStr (lit ''releaseNotesList'')) = Some v)"
  shows "\<exists>e. load_yaml_data L fs g = Inl e"
proof (cases data)
  case (YMap items)
  with assms(3) have "map_of items (YStr (lit ''releaseNotesList'')) = None" by auto
  then have "YStr (lit ''releaseNotesList'') \<notin> set (map fst items)"
    by (simp add: map_of_eq_None_iff)
  with assms(1,2) YMap show ?thesis
    by (simp add: load_yaml_data_def py_in_def)
next
  case (YSeq xs)
  with assms(1,2) show ?thesis
    by (simp add: load_yaml_data_def py_in_def py_getitem_def split: bool.splits)
next
  case (YStr s)
  with assms(1,2) show ?thesis
    by (simp add: load_yaml_data_def py_in_def py_getitem_def split: bool.splits)
qed (use assms(1,2) in \<open>simp_all add: load_yaml_data_def py_in_def\<close>)

text \<open>
  Claim C6. When the file \<^verbatim>\<open>newsData.yaml\<close> does not exist, or the YAML reader
  raises on its text, or the value read is not a mapping with the key
  \<^verbatim>\<open>releaseNotesList\<close>, the run ends with exit status 1, its last printed line is the
  diagnostic (that the file was not found, or the error of loading), and the files
  are as they were: no PDF is written and no release notes are made up.
\<close>

theorem load_failure_exits_without_output:
  assumes "fs (lit ''newsData.yaml'') = None \<or>
           (\<exists>text. fs (lit ''newsData.yaml'') = Some (TextFile text) \<and>
              ((\<exists>e. yaml_safe_load L text = Inl e) \<or>
               (\<exists>data. yaml_safe_load L text = Inr data \<and>
                  \<not> (\<exists>items v. data = YMap items \<and>
                        map_of items (YStr (lit ''releaseNotesList'')) = Some v))))"
  shows "run_outcome (main L fs) = Exit 1 \<and> run_files (main L fs) = fs \<and>
         (run_stdout (main L fs) = [YamlFileNotFound (lit ''newsData.yaml'')] \<or>
          (\<exists>e. run_stdout (main L fs) = [MetadataPrinted, ErrorLoadingYaml e]))"
proof (cases "fs (lit ''newsData.yaml'') = None")
  case True
  then show ?thesis by (simp add: main_def)
next
  case False
  with assms obtain src where f: "fs (lit ''newsData.yaml'') = Some (TextFile src)"
    and c: "(\<exists>e. yaml_safe_load L src = Inl e) \<or>
               (\<exists>data. yaml_safe_load L src = Inr data \<and>
                  \<not> (\<exists>items v. data = YMap items \<and>
                        map_of items (YStr (lit ''releaseNotesList'')) = Some v))"
    by blast
  define g where "g = init (lit ''newsData.yaml'') (Some (lit ''CCDI_Hub_Release_Notes.pdf''))"
  have p: "yaml_file_path g = lit ''newsData.yaml''" by (simp add: g_def init_def)
  have "\<exists>e. load_yaml_data L fs g = Inl e"
  proof -
    from c consider e where "yaml_safe_load L src = Inl e"
      | data where "yaml_safe_load L src = Inr data"
          "\<not> (\<exists>items v. data = YMap items \<and> map_of items (YStr (lit ''releaseNotesList'')) = Some v)"
      by blast
    then show ?thesis
    proof cases
      case 1
      then show ?thesis using f p by (simp add: load_yaml_data_def)
    next
      case 2
      show ?thesis by (rule load_yaml_data_no_key [OF _ 2]) (simp add: p f)
    qed
  qed
  then obtain e where "load_yaml_data L fs g = Inl e" ..
  then show ?thesis using False by (simp add: main_def Let_def g_def)
qed

theorem load_failure_exits_without_output_witness:
  "run_outcome (main (example_library [] []) (\<lambda>f. None)) = Exit 1 \<and>
   run_files (main (example_library [] []) (\<lambda>f. None)) = (\<lambda>f. None) \<and>
   run_outcome (main (example_library [] []) [lit ''newsData.yaml'' \<mapsto> TextFile (lit ''notes'')]) = Exit 1 \<and>
   run_files (main (example_library [] []) [lit ''newsData.yaml'' \<mapsto> TextFile (lit ''notes'')]) =
     [lit ''newsData.yaml'' \<mapsto> TextFile (lit ''notes'')] \<and>
   run_stdout (main (example_library [] []) [lit ''newsData.yaml'' \<mapsto> TextFile (lit ''notes'')]) =
     [MetadataPrinted, ErrorLoadingYaml ValueError]"
proof -
  have k: "lit ''title'' \<noteq> lit ''releaseNotesList''" by (simp add: lit_def)
  have "run_outcome (main (example_library [] []) [lit ''newsData.yaml'' \<mapsto> TextFile (lit ''notes'')]) = Exit 1 \<and>
   run_files (main (example_library [] []) [lit ''newsData.yaml'' \<mapsto> TextFile (lit ''notes'')]) =
     [lit ''newsData.yaml'' \<mapsto> TextFile (lit ''notes'')]"
    using load_failure_exits_without_output
      [of "[lit ''newsData.yaml'' \<mapsto> TextFile (lit ''notes'')]" "example_library [] []"] k
    by (simp add: example_library_def)
  moreover have "run_stdout (main (example_library [] []) [lit ''newsData.yaml'' \<mapsto> TextFile (lit ''notes'')]) =
     [MetadataPrinted, ErrorLoadingYaml ValueError]"
    using k by (simp add: main_def Let_def init_def load_yaml_data_def example_library_def py_in_def)
  moreover have "run_outcome (main (example_library [] []) (\<lambda>f. None)) = Exit 1 \<and>
     run_files (main (example_library [] []) (\<lambda>f. None)) = (\<lambda>f. None)"
    using load_failure_exits_without_output [of "\<lambda>f. None" "example_library [] []"] by simp
  ultimately show ?thesis by simp
qed

text \<open>
  The other way round: when the file holds a mapping whose key
  \<^verbatim>\<open>releaseNotesList\<close> is a sequence of release notes and \<^verbatim>\<open>generate_pdf\<close> returns,
  the run ends with exit status 0 and the only file it changes is the PDF it writes.
\<close>

theorem successful_run_writes_the_pdf:
  assumes "fs (lit ''newsData.yaml'') = Some (TextFile src)"
    and "yaml_safe_load L src = Inr (YMap items)"
    and "map_of items (YStr (lit ''releaseNotesList'')) = Some (YSeq xs)"
    and "those (map (as_note L) xs) = Some notes"
    and "generate_pdf L fs ((init (lit ''newsData.yaml'') (Some (lit ''CCDI_Hub_Release_Notes.pdf'')))
           \<lparr>release_notes := notes\<rparr>) = Inr (doc, g')"
  shows "run_outcome (main L fs) = Exit 0 \<and>
         run_files (main L fs) = fs(lit ''CCDI_Hub_Release_Notes.pdf'' \<mapsto> PdfFile doc)"
proof -
  from assms(3) have "YStr (lit ''releaseNotesList'') \<in> set (map fst items)"
    by (metis map_of_eq_None_iff option.distinct(1) set_map)
  with assms(1-3) have "load_yaml_data L fs (init (lit ''newsData.yaml'') (Some (lit ''CCDI_Hub_Release_Notes.pdf''))) = Inr (YSeq xs)"
    by (simp add: load_yaml_data_def init_def py_in_def py_getitem_def py_len_def)
  moreover have "output_path g' = lit ''CCDI_Hub_Release_Notes.pdf''"
    using generate_pdf_output_path [OF assms(5)] by (simp add: init_def lit_def)
  ultimately show ?thesis
    using assms(1,4,5) by (simp add: main_def Let_def as_notes_def)
qed

theorem successful_run_writes_the_pdf_witness:
  "run_outcome (main loaded_library [lit ''newsData.yaml'' \<mapsto> TextFile (lit ''First'')]) = Exit 0 \<and>
   (\<exists>doc. run_files (main loaded_library [lit ''newsData.yaml'' \<mapsto> TextFile (lit ''First'')]) =
      [lit ''newsData.yaml'' \<mapsto> TextFile (lit ''First''),
       lit ''CCDI_Hub_Release_Notes.pdf'' \<mapsto> PdfFile doc])"
proof -
  define fs :: files where "fs = [lit ''newsData.yaml'' \<mapsto> TextFile (lit ''First'')]"
  define ns where "ns = [\<lparr>version = None, title = Some (lit ''First''), date = None, fullText = None\<rparr>]"
  define g where "g = (init (lit ''newsData.yaml'') (Some (lit ''CCDI_Hub_Release_Notes.pdf'')))\<lparr>release_notes := ns\<rparr>"
  have acc: "\<And>t. para_accepts loaded_library t"
    by (simp add: loaded_library_def example_library_def)
  from build_story_total [of loaded_library "release_notes g", OF acc]
  obtain story where s: "build_story loaded_library (release_notes g) = Inr story" ..
  have l: "layout loaded_library story = Inr 2"
    by (simp add: loaded_library_def example_library_def)
  from generate_pdf_total [OF s l] obtain doc g' where
    r: "generate_pdf loaded_library fs g = Inr (doc, g')" by blast
  have f: "fs (lit ''newsData.yaml'') = Some (TextFile (lit ''First''))" by (simp add: fs_def)
  have y: "yaml_safe_load loaded_library (lit ''First'') =
      Inr (YMap [(YStr (lit ''releaseNotesList''), YSeq [YMap [(YStr (lit ''title''), YStr (lit ''First''))]])])"
    by (simp add: loaded_library_def)
  have m: "map_of [(YStr (lit ''releaseNotesList''), YSeq [YMap [(YStr (lit ''title''), YStr (lit ''First''))]])]
       (YStr (lit ''releaseNotesList'')) = Some (YSeq [YMap [(YStr (lit ''title''), YStr (lit ''First''))]])"
    by simp
  have n: "those (map (as_note loaded_library) [YMap [(YStr (lit ''title''), YStr (lit ''First''))]]) = Some ns"
    by (simp add: as_note_def note_field_def full_text_field_def formatted_field_def ns_def lit_def)
  from successful_run_writes_the_pdf [OF f y m n r [unfolded g_def]]
  show ?thesis unfolding fs_def by auto
qed

section \<open>Scaling the logo\<close>

text \<open>
  Claim C8, amended. When the SVG reader returns a drawing whose width and height are
  both true in a condition, that is, not zero, the converter returns that drawing with
  its content scaled by one factor along both axes, the float quotient of the target
  height by the native height, with the target height as its height and the float
  product of the native width and that factor as its width. Whenever the two float
  operations are exact, the new width times the native height is the native width
  times the new height: the aspect ratio is kept. When the width or the height is
  zero, the converter returns the drawing unscaled, with the width 400 and the target
  height.
\<close>

theorem logo_is_scaled_by_one_factor:
  assumes "svg2rlg L svg_path = Inr (Some d)"
  shows "(truthy (width d) \<and> truthy (height d) \<longrightarrow>
            convert_svg_to_drawing L svg_path target_height =
              Some ((drawing_scale L (float_div L target_height (height d))
                       (float_div L target_height (height d)) d)
                    \<lparr>width := float_mul L (width d) (float_div L target_height (height d)),
                     height := target_height\<rparr>)) \<and>
         (\<not> (truthy (width d) \<and> truthy (height d)) \<longrightarrow>
            convert_svg_to_drawing L svg_path target_height =
              Some (d\<lparr>width := Finite 400, height := target_height\<rparr>)) \<and>
         (\<forall>w h r. width d = Finite w \<and> height d = Finite h \<and> target_height = Finite r \<and>
            w \<noteq> 0 \<and> h \<noteq> 0 \<and>
            float_div L (Finite r) (Finite h) = Finite (r / h) \<and>
            float_mul L (Finite w) (Finite (r / h)) = Finite (w * (r / h)) \<longrightarrow>
            (\<exists>d' w'. convert_svg_to_drawing L svg_path target_height = Some d' \<and>
               transform d' =
                 transform (drawing_scale L (Finite (r / h)) (Finite (r / h)) d) \<and>
               width d' = Finite w' \<and> height d' = Finite r \<and>
               w' = w * (r / h) \<and> w' * h = w * r))"
proof (intro conjI allI impI)
  assume "truthy (width d) \<and> truthy (height d)"
  with assms show "convert_svg_to_drawing L svg_path target_height =
              Some ((drawing_scale L (float_div L target_height (height d))
                       (float_div L target_height (height d)) d)
                    \<lparr>width := float_mul L (width d) (float_div L target_height (height d)),
                     height := target_height\<rparr>)"
    by (simp add: convert_svg_to_drawing_def Let_def)
next
  assume "\<not> (truthy (width d) \<and> truthy (height d))"
  with assms show "convert_svg_to_drawing L svg_path target_height =
              Some (d\<lparr>width := Finite 400, height := target_height\<rparr>)"
    by (auto simp: convert_svg_to_drawing_def)
next
  fix w h r :: real
  assume a: "width d = Finite w \<and> height d = Finite h \<and> target_height = Finite r \<and>
            w \<noteq> 0 \<and> h \<noteq> 0 \<and>
            float_div L (Finite r) (Finite h) = Finite (r / h) \<and>
            float_mul L (Finite w) (Finite (r / h)) = Finite (w * (r / h))"
  then have t: "truthy (width d) \<and> truthy (height d)" by (simp add: truthy_def)
  from a have "w * (r / h) * h = w * r" by simp
  with assms a t show "\<exists>d' w'. convert_svg_to_drawing L svg_path target_height = Some d' \<and>
               transform d' =
                 transform (drawing_scale L (Finite (r / h)) (Finite (r / h)) d) \<and>
               width d' = Finite w' \<and> height d' = Finite r \<and>
               w' = w * (r / h) \<and> w' * h = w * r"
    by (simp add: convert_svg_to_drawing_def Let_def)
qed

theorem logo_is_scaled_by_one_factor_witness:
  "convert_svg_to_drawing (example_library [] []) (lit ''Portal_Logo.svg'') (Finite 50) =
     Some \<lparr>width = Finite 200, height = Finite 50,
           transform = (Finite (1 / 2), Finite 0, Finite 0, Finite (1 / 2), Finite 0, Finite 0)\<rparr> \<and>
   (\<exists>d' w'. convert_svg_to_drawing (example_library [] []) (lit ''Portal_Logo.svg'') (Finite 50) =
        Some d' \<and> width d' = Finite w' \<and> height d' = Finite 50 \<and> w' * 100 = 400 * 50) \<and>
   convert_svg_to_drawing
     ((example_library [] [])\<lparr>svg2rlg := \<lambda>p. Inr (Some (example_drawing 0 0))\<rparr>)
     (lit ''Portal_Logo.svg'') (Finite 50) =
     Some \<lparr>width = Finite 400, height = Finite 50,
           transform = (Finite 1, Finite 0, Finite 0, Finite 1, Finite 0, Finite 0)\<rparr>"
proof -
  have s: "svg2rlg (example_library [] []) (lit ''Portal_Logo.svg'') =
      Inr (Some (example_drawing 400 100))"
    by (simp add: example_library_def)
  note main_fact = logo_is_scaled_by_one_factor [OF s, of "Finite 50"]
  have 1: "convert_svg_to_drawing (example_library [] []) (lit ''Portal_Logo.svg'') (Finite 50) =
     Some \<lparr>width = Finite 200, height = Finite 50,
           transform = (Finite (1 / 2), Finite 0, Finite 0, Finite (1 / 2), Finite 0, Finite 0)\<rparr>"
    using main_fact
    by (simp add: example_library_def example_drawing_def truthy_def exact_div_def exact_mul_def
        matrix_scale_def)
  from main_fact have "\<exists>d' w'. convert_svg_to_drawing (example_library [] [])
        (lit ''Portal_Logo.svg'') (Finite 50) = Some d' \<and>
        transform d' = transform (drawing_scale (example_library [] [])
          (Finite (50 / 100)) (Finite (50 / 100)) (example_drawing 400 100)) \<and>
        width d' = Finite w' \<and> height d' = Finite 50 \<and>
        w' = 400 * (50 / 100) \<and> w' * 100 = 400 * 50"
    by (simp add: example_library_def example_drawing_def exact_div_def exact_mul_def)
  then have 2: "\<exists>d' w'. convert_svg_to_drawing (example_library [] []) (lit ''Portal_Logo.svg'')
        (Finite 50) = Some d' \<and> width d' = Finite w' \<and> height d' = Finite 50 \<and>
        w' * 100 = 400 * 50"
    by blast
  have z: "svg2rlg ((example_library [] [])\<lparr>svg2rlg := \<lambda>p. Inr (Some (example_drawing 0 0))\<rparr>)
      (lit ''Portal_Logo.svg'') = Inr (Some (example_drawing 0 0))"
    by simp
  from logo_is_scaled_by_one_factor [OF z, of "Finite 50"]
  have 3: "convert_svg_to_drawing
     ((example_library [] [])\<lparr>svg2rlg := \<lambda>p. Inr (Some (example_drawing 0 0))\<rparr>)
     (lit ''Portal_Logo.svg'') (Finite 50) =
     Some \<lparr>width = Finite 400, height = Finite 50,
           transform = (Finite 1, Finite 0, Finite 0, Finite 1, Finite 0, Finite 0)\<rparr>"
    by (simp add: example_drawing_def truthy_def)
  from 1 2 3 show ?thesis by (intro conjI)
qed

text \<open>
  Claim C8 as stated fails: an asset of width 300 and height 0 supplies a width, and
  the converter returns it with the fixed width 400. So it does an asset of width 0
  and height 100, for which the native width times the quotient of the target height
  50 by the native height is 0.
\<close>

theorem fixed_width_for_asset_with_a_width:
  "svg2rlg flat_library (lit ''Portal_Logo.svg'') = Inr (Some (example_drawing 300 0)) \<and>
   width (example_drawing 300 0) = Finite 300 \<and>
   convert_svg_to_drawing flat_library (lit ''Portal_Logo.svg'') (Finite 50) =
     Some \<lparr>width = Finite 400, height = Finite 50,
           transform = (Finite 1, Finite 0, Finite 0, Finite 1, Finite 0, Finite 0)\<rparr> \<and>
   exact_mul (Finite 0) (exact_div (Finite 50) (Finite 100)) = Finite 0 \<and>
   convert_svg_to_drawing
     ((example_library [] [])\<lparr>svg2rlg := \<lambda>p. Inr (Some (example_drawing 0 100))\<rparr>)
     (lit ''Portal_Logo.svg'') (Finite 50) =
     Some \<lparr>width = Finite 400, height = Finite 50,
           transform = (Finite 1, Finite 0, Finite 0, Finite 1, Finite 0, Finite 0)\<rparr>"
  by (simp add: flat_library_def convert_svg_to_drawing_def example_drawing_def truthy_def
      exact_mul_def exact_div_def)

section \<open>The converter when every paragraph is accepted\<close>

lemmas converter_defs =
  parse_html_content_def try_block_def soup_find_all_def tag_names_def handle_element_def
  list_item_def nested_item_def append_Paragraph_def and_then_def find_children_def
  parent_name_def strip_def isspace_def colon_def split_first_def lt_sign_def gt_sign_def

lemma not_isl_append_Paragraph: "para_accepts L t \<Longrightarrow> append_Paragraph L t st = Inr [Paragraph t st]"
  by (simp add: append_Paragraph_def)

lemma and_then_Inr: "a = Inr xs \<Longrightarrow> b = Inr ys \<Longrightarrow> and_then a b = Inr (xs @ ys)"
  by (simp add: and_then_def)

lemma for_each_Inr:
  "(\<And>x. x \<in> set xs \<Longrightarrow> \<exists>ys. f x = Inr ys) \<Longrightarrow>
   for_each f xs = Inr (concat (map (\<lambda>x. emitted_flowables (f x)) xs))"
proof (induction xs)
  case Nil
  show ?case by simp
next
  case (Cons x xs)
  from Cons.prems [of x] obtain ys where y: "f x = Inr ys" by auto
  from Cons.IH Cons.prems have "for_each f xs = Inr (concat (map (\<lambda>x. emitted_flowables (f x)) xs))"
    by simp
  with y show ?case by (simp add: and_then_def emitted_flowables_def)
qed

lemma nested_item_accepting: "(\<And>t. para_accepts L t) \<Longrightarrow> \<exists>ys. nested_item L n = Inr ys"
  by (simp add: nested_item_def Let_def append_Paragraph_def)

lemma and_then_accepting:
  "\<exists>xs. a = Inr xs \<Longrightarrow> \<exists>ys. b = Inr ys \<Longrightarrow> \<exists>zs. and_then a b = Inr zs"
  by (auto simp: and_then_def)

lemma list_item_accepting:
  assumes acc: "\<And>t. para_accepts L t"
  shows "\<exists>ys. list_item L n = Inr ys"
proof (cases "find_first (lit ''ul'') (contents n)")
  case None
  then show ?thesis by (simp add: list_item_def Let_def append_Paragraph_def acc)
next
  case (Some u)
  have "\<exists>ys. for_each (nested_item L) (find_children (lit ''li'') u) = Inr ys"
    using for_each_Inr [of _ "nested_item L"] nested_item_accepting [of L, OF acc] by blast
  then have "\<And>t. \<exists>zs. and_then (append_Paragraph L t ListItem)
       (for_each (nested_item L) (find_children (lit ''li'') u)) = Inr zs"
    by (intro and_then_accepting) (simp_all add: append_Paragraph_def acc)
  then show ?thesis using Some by (simp add: list_item_def Let_def)
qed

lemma handle_element_accepting:
  assumes acc: "\<And>t. para_accepts L t"
  shows "\<exists>ys. handle_element L ce = Inr ys"
proof -
  have "\<exists>ys. for_each (list_item L) (find_children (lit ''li'') (snd ce)) = Inr ys"
    using for_each_Inr [of _ "list_item L"] list_item_accepting [of L, OF acc] by blast
  then show ?thesis
    by (simp add: handle_element_def Let_def append_Paragraph_def acc)
qed

lemma parse_html_content_accepting:
  assumes "BeautifulSoup L html = Inr soup" and "html \<noteq> []" and acc: "\<And>t. para_accepts L t"
  shows "parse_html_content L html =
         Inr (concat (map (\<lambda>ce. emitted_flowables (handle_element L ce))
                (soup_find_all tag_names soup)))"
proof -
  have "for_each (handle_element L) (soup_find_all tag_names soup) =
        Inr (concat (map (\<lambda>ce. emitted_flowables (handle_element L ce))
                (soup_find_all tag_names soup)))"
    by (rule for_each_Inr) (rule handle_element_accepting [OF acc])
  with assms(1,2) show ?thesis
    by (simp add: parse_html_content_def try_block_def)
qed

lemma for_each_returns:
  "for_each f xs = Inr ys \<Longrightarrow>
   (\<forall>x \<in> set xs. \<exists>zs. f x = Inr zs) \<and>
   ys = concat (map (\<lambda>x. emitted_flowables (f x)) xs)"
proof (induction xs arbitrary: ys)
  case Nil
  then show ?case by simp
next
  case (Cons x xs)
  from Cons.prems obtain us vs where u: "f x = Inr us" and v: "for_each f xs = Inr vs"
    and y: "ys = us @ vs"
    by (auto simp: and_then_def split: sum.splits prod.splits)
  from Cons.IH [OF v] u y show ?case by (simp add: emitted_flowables_def)
qed

text \<open>
  Claim C2. For the fragment
  \<^verbatim>\<open><ul><li>Group A: <ul><li>X</li><li>Y</li></ul></li></ul>\<close>, parsed into the tree
  \<open>nested_soup\<close>, the converter returns five list items and not the three of the
  claim: the outer item up to its colon, the two nested items with the deeper prefix,
  and then the two nested items once more with the outer prefix, because
  \<^verbatim>\<open>find_all\<close> lists the nested list as well and the loop handles it like any other
  list.
\<close>

theorem nested_list_items_emitted_twice:
  assumes "BeautifulSoup L nested_fragment = Inr nested_soup"
    and "\<forall>t. para_accepts L t"
  shows "parse_html_content L nested_fragment = Inr
     [Paragraph ([bullet] @ lit '' Group A'') ListItem,
      Paragraph (lit ''  '' @ [bullet] @ lit '' X'') ListItem,
      Paragraph (lit ''  '' @ [bullet] @ lit '' Y'') ListItem,
      Paragraph ([bullet] @ lit '' X'') ListItem,
      Paragraph ([bullet] @ lit '' Y'') ListItem]"
proof -
  have ne: "nested_fragment \<noteq> []" by (simp add: nested_fragment_def lit_def)
  show ?thesis
    using assms ne
    by (simp add: converter_defs nested_soup_def lit_def)
qed

theorem nested_list_items_emitted_twice_witness:
  "parse_html_content (example_library [(nested_fragment, nested_soup)] []) nested_fragment = Inr
     [Paragraph ([bullet] @ lit '' Group A'') ListItem,
      Paragraph (lit ''  '' @ [bullet] @ lit '' X'') ListItem,
      Paragraph (lit ''  '' @ [bullet] @ lit '' Y'') ListItem,
      Paragraph ([bullet] @ lit '' X'') ListItem,
      Paragraph ([bullet] @ lit '' Y'') ListItem]"
  by (rule nested_list_items_emitted_twice) (simp_all add: example_library_def)

text \<open>
  Claim C3, amended. Let the parser return a tree for a fragment and let no statement
  of the \<^verbatim>\<open>try\<close> block raise. Then the converter returns what the listed tags
  append, tag after tag in document order, and every paragraph element with text left
  after stripping appends exactly one paragraph with that text; its style is
  \<^verbatim>\<open>SectionHeader\<close> when the style attribute contains the texts
  \<^verbatim>\<open>color: #2f5496\<close> and \<^verbatim>\<open>font-size: 16pt\<close> letter for letter, \<^verbatim>\<open>SubsectionHeader\<close>
  when it contains \<^verbatim>\<open>color: #2f5496\<close> and \<^verbatim>\<open>font-size: 13pt\<close>, and
  \<^verbatim>\<open>ReleaseContent\<close> otherwise.
\<close>

theorem paragraphs_styled_by_literal_text:
  assumes "html \<noteq> []"
    and "BeautifulSoup L html = Inr soup"
    and "try_block L html = Inr elements"
  shows "parse_html_content L html = Inr elements \<and>
         elements = concat (map (\<lambda>ce. emitted_flowables (handle_element L ce))
                      (soup_find_all tag_names soup)) \<and>
         (\<forall>ce \<in> set (soup_find_all tag_names soup).
            is_tag (lit ''p'') (snd ce) \<and> strip (get_text (snd ce)) \<noteq> [] \<longrightarrow>
              emitted_flowables (handle_element L ce) =
                [Paragraph (strip (get_text (snd ce)))
                   (if contains (lit ''color: #2f5496'') (get_attr (snd ce) (lit ''style'') []) \<and>
                       contains (lit ''font-size: 16pt'') (get_attr (snd ce) (lit ''style'') [])
                    then SectionHeader
                    else if contains (lit ''color: #2f5496'') (get_attr (snd ce) (lit ''style'') []) \<and>
                            contains (lit ''font-size: 13pt'') (get_attr (snd ce) (lit ''style'') [])
                    then SubsectionHeader
                    else ReleaseContent)])"
proof (intro conjI ballI impI)
  from assms(1,3) show "parse_html_content L html = Inr elements"
    by (simp add: parse_html_content_def)
next
  from assms(2,3) have f: "for_each (handle_element L) (soup_find_all tag_names soup) = Inr elements"
    by (simp add: try_block_def)
  from for_each_returns [OF this]
  show "elements = concat (map (\<lambda>ce. emitted_flowables (handle_element L ce))
                      (soup_find_all tag_names soup))"
    by simp
next
  fix ce
  assume m: "ce \<in> set (soup_find_all tag_names soup)"
    and p: "is_tag (lit ''p'') (snd ce) \<and> strip (get_text (snd ce)) \<noteq> []"
  from assms(2,3) have f: "for_each (handle_element L) (soup_find_all tag_names soup) = Inr elements"
    by (simp add: try_block_def)
  from for_each_returns [OF f] m have "\<exists>zs. handle_element L ce = Inr zs"
    by blast
  then obtain zs where z: "handle_element L ce = Inr zs" ..
  with p show "emitted_flowables (handle_element L ce) =
                [Paragraph (strip (get_text (snd ce)))
                   (if contains (lit ''color: #2f5496'') (get_attr (snd ce) (lit ''style'') []) \<and>
                       contains (lit ''font-size: 16pt'') (get_attr (snd ce) (lit ''style'') [])
                    then SectionHeader
                    else if contains (lit ''color: #2f5496'') (get_attr (snd ce) (lit ''style'') []) \<and>
                            contains (lit ''font-size: 13pt'') (get_attr (snd ce) (lit ''style'') [])
                    then SubsectionHeader
                    else ReleaseContent)]"
    by (auto simp: handle_element_def Let_def append_Paragraph_def emitted_flowables_def
        split: if_splits)
qed

theorem paragraphs_styled_by_literal_text_witness:
  "parse_html_content (example_library [(overview_fragment, overview_soup)] []) overview_fragment =
     Inr [Paragraph (lit ''Overview'') SectionHeader] \<and>
   emitted_flowables
     (handle_element (example_library [(overview_fragment, overview_soup)] [])
        ([], hd overview_soup)) =
     [Paragraph (lit ''Overview'') SectionHeader]"
proof -
  have ne: "overview_fragment \<noteq> []" by (simp add: overview_fragment_def lit_def)
  have b: "BeautifulSoup (example_library [(overview_fragment, overview_soup)] []) overview_fragment =
      Inr overview_soup"
    by (simp add: example_library_def)
  have t: "try_block (example_library [(overview_fragment, overview_soup)] []) overview_fragment =
      Inr [Paragraph (lit ''Overview'') SectionHeader]"
    by (simp add: converter_defs example_library_def overview_soup_def lit_def)
  have m: "([], hd overview_soup) \<in> set (soup_find_all tag_names overview_soup)"
    by (simp add: soup_find_all_def tag_names_def overview_soup_def lit_def)
  have s: "strip (get_text (hd overview_soup)) = lit ''Overview''"
    by (simp add: overview_soup_def strip_def isspace_def lit_def)
  have a: "get_attr (hd overview_soup) (lit ''style'') [] = lit ''color: #2f5496; font-size: 16pt''"
    by (simp add: overview_soup_def)
  have c: "contains (lit ''color: #2f5496'') (lit ''color: #2f5496; font-size: 16pt'') \<and>
           contains (lit ''font-size: 16pt'') (lit ''color: #2f5496; font-size: 16pt'')"
    by (simp add: lit_def)
  have p: "is_tag (lit ''p'') (hd overview_soup)" by (simp add: overview_soup_def)
  have n: "lit ''Overview'' \<noteq> []" by (simp add: lit_def)
  note main_fact = paragraphs_styled_by_literal_text [OF ne b t]
  from main_fact have 1: "parse_html_content (example_library [(overview_fragment, overview_soup)] [])
      overview_fragment = Inr [Paragraph (lit ''Overview'') SectionHeader]"
    by simp
  from main_fact m have "is_tag (lit ''p'') (hd overview_soup) \<and>
      strip (get_text (hd overview_soup)) \<noteq> [] \<longrightarrow>
      emitted_flowables (handle_element (example_library [(overview_fragment, overview_soup)] [])
        ([], hd overview_soup)) =
      [Paragraph (strip (get_text (hd overview_soup)))
         (if contains (lit ''color: #2f5496'') (get_attr (hd overview_soup) (lit ''style'') []) \<and>
             contains (lit ''font-size: 16pt'') (get_attr (hd overview_soup) (lit ''style'') [])
          then SectionHeader
          else if contains (lit ''color: #2f5496'') (get_attr (hd overview_soup) (lit ''style'') []) \<and>
                  contains (lit ''font-size: 13pt'') (get_attr (hd overview_soup) (lit ''style'') [])
          then SubsectionHeader
          else ReleaseContent)]"
    by fastforce
  with p s a c n have 2: "emitted_flowables
     (handle_element (example_library [(overview_fragment, overview_soup)] [])
        ([], hd overview_soup)) =
     [Paragraph (lit ''Overview'') SectionHeader]"
    by simp
  from 1 2 show ?thesis by (intro conjI)
qed

text \<open>
  Claim C3 as stated fails: the style \<^verbatim>\<open>color:#2f5496; font-size:16pt\<close>, written
  without the space after each colon, declares the heading colour and size, and the
  paragraph is converted to a plain paragraph.
\<close>

theorem unspaced_style_is_plain_paragraph:
  "parse_html_content (example_library [(unspaced_fragment, unspaced_soup)] []) unspaced_fragment =
     Inr [Paragraph (lit ''Overview'') ReleaseContent] \<and>
   parse_html_content (example_library [(unspaced_fragment, unspaced_soup)] []) unspaced_fragment \<noteq>
     Inr [Paragraph (lit ''Overview'') SectionHeader]"
proof -
  have ne: "unspaced_fragment \<noteq> []" by (simp add: unspaced_fragment_def lit_def)
  have "parse_html_content (example_library [(unspaced_fragment, unspaced_soup)] []) unspaced_fragment =
     Inr [Paragraph (lit ''Overview'') ReleaseContent]"
    using ne by (simp add: converter_defs example_library_def unspaced_soup_def lit_def)
  then show ?thesis by simp
qed

text \<open>
  Claim C7. In the fragment \<^verbatim>\<open><ul><li>A<ol><li>B</li></ol></li></ul>\<close>, parsed into
  the tree \<open>ordered_in_unordered_soup\<close>, the inner item has an unordered list among
  its ancestors, and the rule for a list item on its own emits it all the same: the
  rule looks at the parent of the item only, which is the ordered list. The converter
  returns \<^verbatim>\<open>B\<close> twice, inside the text of the outer item and as an item of its own.
\<close>

theorem item_under_list_ancestor_is_emitted:
  assumes "BeautifulSoup L ordered_in_unordered_fragment = Inr ordered_in_unordered_soup"
    and "\<forall>t. para_accepts L t"
  shows "([lit ''ol'', lit ''li'', lit ''ul''], Tag (lit ''li'') [] [NavigableString (lit ''B'')])
           \<in> set (soup_find_all tag_names ordered_in_unordered_soup) \<and>
         lit ''ul'' \<in> set [lit ''ol'', lit ''li'', lit ''ul''] \<and>
         handle_element L
           ([lit ''ol'', lit ''li'', lit ''ul''], Tag (lit ''li'') [] [NavigableString (lit ''B'')]) =
           Inr [Paragraph ([bullet] @ lit '' B'') ListItem] \<and>
         parse_html_content L ordered_in_unordered_fragment =
           Inr [Paragraph ([bullet] @ lit '' AB'') ListItem,
                Paragraph ([bullet] @ lit '' B'') ListItem]"
proof -
  have ne: "ordered_in_unordered_fragment \<noteq> []"
    by (simp add: ordered_in_unordered_fragment_def lit_def)
  have 1: "([lit ''ol'', lit ''li'', lit ''ul''], Tag (lit ''li'') [] [NavigableString (lit ''B'')])
     \<in> set (soup_find_all tag_names ordered_in_unordered_soup)"
    by (simp add: soup_find_all_def tag_names_def ordered_in_unordered_soup_def lit_def)
  have 2: "handle_element L
     ([lit ''ol'', lit ''li'', lit ''ul''], Tag (lit ''li'') [] [NavigableString (lit ''B'')]) =
     Inr [Paragraph ([bullet] @ lit '' B'') ListItem]"
    using assms(2) by (simp add: converter_defs lit_def)
  have 3: "parse_html_content L ordered_in_unordered_fragment =
     Inr [Paragraph ([bullet] @ lit '' AB'') ListItem, Paragraph ([bullet] @ lit '' B'') ListItem]"
    using ne assms by (simp add: converter_defs ordered_in_unordered_soup_def lit_def)
  from 1 2 3 show ?thesis by simp
qed

theorem item_under_list_ancestor_is_emitted_witness:
  "handle_element (example_library [(ordered_in_unordered_fragment, ordered_in_unordered_soup)] [])
     ([lit ''ol'', lit ''li'', lit ''ul''], Tag (lit ''li'') [] [NavigableString (lit ''B'')]) =
     Inr [Paragraph ([bullet] @ lit '' B'') ListItem] \<and>
   parse_html_content (example_library [(ordered_in_unordered_fragment, ordered_in_unordered_soup)] [])
     ordered_in_unordered_fragment =
     Inr [Paragraph ([bullet] @ lit '' AB'') ListItem, Paragraph ([bullet] @ lit '' B'') ListItem]"
proof -
  have b: "BeautifulSoup (example_library [(ordered_in_unordered_fragment, ordered_in_unordered_soup)] [])
      ordered_in_unordered_fragment = Inr ordered_in_unordered_soup"
    by (simp add: example_library_def)
  have a: "\<forall>t. para_accepts (example_library [(ordered_in_unordered_fragment, ordered_in_unordered_soup)] []) t"
    by (simp add: example_library_def)
  from item_under_list_ancestor_is_emitted [OF b a] show ?thesis by simp
qed

text \<open>
  Claim C5. The fragment \<^verbatim>\<open><p>ok</p><p>&lt;b&gt;oops</p>\<close> has two paragraphs; the
  text of the second is \<^verbatim>\<open><b>oops\<close>, which the paragraph constructor rejects. The
  exception reaches the handler after the first paragraph was appended, and the
  handler appends the stripped text of the whole fragment to the same list: the
  converter returns two paragraphs, the first one twice over, and not the single
  paragraph of the claim.
\<close>

theorem fallback_keeps_earlier_paragraphs:
  assumes "BeautifulSoup L rejected_fragment = Inr rejected_soup"
    and "para_accepts L (lit ''ok'')"
    and "\<not> para_accepts L (lit ''<b>oops'')"
    and "para_accepts L (lit ''ok&lt;b&gt;oops'')"
  shows "parse_html_content L rejected_fragment =
     Inr [Paragraph (lit ''ok'') ReleaseContent,
          Paragraph (lit ''ok&lt;b&gt;oops'') ReleaseContent]"
proof -
  have ne: "rejected_fragment \<noteq> []" by (simp add: rejected_fragment_def lit_def)
  have r: "re_sub_tags rejected_fragment = lit ''ok&lt;b&gt;oops''"
    by (simp add: rejected_fragment_def lit_def lt_sign_def gt_sign_def)
  have t: "try_block L rejected_fragment = Inl (ValueError, [Paragraph (lit ''ok'') ReleaseContent])"
    using assms(1-3)
    by (simp add: converter_defs rejected_soup_def lit_def)
  have s: "strip (lit ''ok&lt;b&gt;oops'') = lit ''ok&lt;b&gt;oops''"
    by (simp add: strip_def isspace_def lit_def)
  have n: "lit ''ok&lt;b&gt;oops'' \<noteq> []" by (simp add: lit_def)
  show ?thesis
    using ne assms(4) n by (simp add: parse_html_content_def t r s Let_def)
qed

theorem fallback_keeps_earlier_paragraphs_witness:
  "parse_html_content (example_library [(rejected_fragment, rejected_soup)] [lit ''<b>oops''])
     rejected_fragment =
     Inr [Paragraph (lit ''ok'') ReleaseContent,
          Paragraph (lit ''ok&lt;b&gt;oops'') ReleaseContent]"
  by (rule fallback_keeps_earlier_paragraphs) (simp_all add: example_library_def lit_def)

text \<open>
  Claim C10. The item of \<^verbatim>\<open><ul><li>: see below<ul><li>X</li></ul></li></ul>\<close> holds a
  nested list and its text starts with a colon, so the text before the first colon is
  empty: the converter returns a list item that is the bullet prefix and nothing
  else, which the claim excludes. The test for empty text is made on the whole text
  of the item, not on the part before the colon.
\<close>

theorem colon_first_item_is_blank:
  assumes "BeautifulSoup L colon_first_fragment = Inr colon_first_soup"
    and "\<forall>t. para_accepts L t"
  shows "parse_html_content L colon_first_fragment =
     Inr [Paragraph ([bullet] @ lit '' '' @ []) ListItem,
          Paragraph (lit ''  '' @ [bullet] @ lit '' '' @ lit ''X'') ListItem,
          Paragraph ([bullet] @ lit '' '' @ lit ''X'') ListItem]"
proof -
  have ne: "colon_first_fragment \<noteq> []" by (simp add: colon_first_fragment_def lit_def)
  show ?thesis
    using ne assms by (simp add: converter_defs colon_first_soup_def lit_def)
qed

theorem colon_first_item_is_blank_witness:
  "parse_html_content (example_library [(colon_first_fragment, colon_first_soup)] [])
     colon_first_fragment =
     Inr [Paragraph ([bullet] @ lit '' '' @ []) ListItem,
          Paragraph (lit ''  '' @ [bullet] @ lit '' '' @ lit ''X'') ListItem,
          Paragraph ([bullet] @ lit '' '' @ lit ''X'') ListItem]"
  by (rule colon_first_item_is_blank) (simp_all add: example_library_def)

section \<open>Further properties of the converter\<close>

text \<open>
  When the parser itself raises, nothing was appended before, and the converter
  returns the text left of the fragment without its tags as one paragraph, or nothing
  when no text is left; it raises when the paragraph constructor rejects that text.
\<close>

theorem parser_failure_falls_back_to_stripped_text:
  assumes "BeautifulSoup L html = Inl e" and "html \<noteq> []"
  shows "parse_html_content L html =
     (if strip (re_sub_tags html) = [] then Inr []
      else if para_accepts L (strip (re_sub_tags html))
      then Inr [Paragraph (strip (re_sub_tags html)) ReleaseContent]
      else Inl ValueError)"
  using assms by (simp add: parse_html_content_def try_block_def Let_def)

theorem parser_failure_falls_back_to_stripped_text_witness:
  "parse_html_content (example_library [] []) (lit ''<p>a <b>b</b> <'') =
     Inr [Paragraph (lit ''a b <'') ReleaseContent]"
proof -
  have b: "BeautifulSoup (example_library [] []) (lit ''<p>a <b>b</b> <'') = Inl LibraryError"
    by (simp add: example_library_def)
  have ne: "lit ''<p>a <b>b</b> <'' \<noteq> []" by (simp add: lit_def)
  have r: "strip (re_sub_tags (lit ''<p>a <b>b</b> <'')) = lit ''a b <''"
    by (simp add: lit_def lt_sign_def gt_sign_def strip_def isspace_def)
  have n: "lit ''a b <'' \<noteq> []" by (simp add: lit_def)
  from parser_failure_falls_back_to_stripped_text [OF b ne] show ?thesis
    using n by (simp add: r example_library_def)
qed

text \<open>
  When the parser returns a tree and the paragraph constructor accepts every text, the
  converter returns the paragraphs of the listed tags, tag after tag in document
  order.
\<close>

theorem blocks_follow_document_order:
  assumes "BeautifulSoup L html = Inr soup" and "html \<noteq> []" and "\<forall>t. para_accepts L t"
  shows "parse_html_content L html =
         Inr (concat (map (\<lambda>ce. emitted_flowables (handle_element L ce))
                (soup_find_all tag_names soup)))"
  using assms by (intro parse_html_content_accepting) simp_all

theorem blocks_follow_document_order_witness:
  "parse_html_content (example_library [(ordered_fragment, ordered_soup)] []) ordered_fragment =
     Inr (concat (map (\<lambda>ce. emitted_flowables
                     (handle_element (example_library [(ordered_fragment, ordered_soup)] []) ce))
            (soup_find_all tag_names ordered_soup)))"
proof -
  have "ordered_fragment \<noteq> []" by (simp add: ordered_fragment_def lit_def)
  then show ?thesis
    by (intro blocks_follow_document_order) (simp_all add: example_library_def)
qed

text \<open>
  Every paragraph the converter returns has markup text that is not blank. The bullet
  of a list item is part of that text, so this does not exclude a list item with
  nothing after its bullet.
\<close>

lemma dropWhile_isspace_nonempty:
  "dropWhile isspace xs \<noteq> [] \<longleftrightarrow> (\<exists>c \<in> set xs. \<not> isspace c)"
  by auto

lemma strip_nonempty_iff: "strip s \<noteq> [] \<longleftrightarrow> (\<exists>c \<in> set s. \<not> isspace c)"
proof -
  have "strip s \<noteq> [] \<longleftrightarrow> (\<exists>c \<in> set (dropWhile isspace s). \<not> isspace c)"
    by (simp add: strip_def dropWhile_isspace_nonempty)
  also have "\<dots> \<longleftrightarrow> dropWhile isspace s \<noteq> []"
  proof
    assume "\<exists>c \<in> set (dropWhile isspace s). \<not> isspace c"
    then show "dropWhile isspace s \<noteq> []" by (auto dest: set_dropWhileD)
  next
    assume n: "dropWhile isspace s \<noteq> []"
    then have "\<not> isspace (hd (dropWhile isspace s))" by (rule hd_dropWhile)
    moreover have "hd (dropWhile isspace s) \<in> set (dropWhile isspace s)" using n by simp
    ultimately show "\<exists>c \<in> set (dropWhile isspace s). \<not> isspace c" by blast
  qed
  also have "\<dots> \<longleftrightarrow> (\<exists>c \<in> set s. \<not> isspace c)" by (rule dropWhile_isspace_nonempty)
  finally show ?thesis .
qed

lemma strip_strip_nonempty: "strip s \<noteq> [] \<Longrightarrow> strip (strip s) \<noteq> []"
proof -
  assume a: "strip s \<noteq> []"
  let ?r = "rev (dropWhile isspace s)"
  have n: "dropWhile isspace ?r \<noteq> []" using a by (simp add: strip_def)
  then have "\<not> isspace (hd (dropWhile isspace ?r))" by (rule hd_dropWhile)
  moreover have "hd (dropWhile isspace ?r) \<in> set (strip s)"
    using n by (simp add: strip_def)
  ultimately have "\<exists>c \<in> set (strip s). \<not> isspace c" by blast
  then show ?thesis by (simp add: strip_nonempty_iff)
qed

lemma nonblank_append_Paragraph:
  "strip t \<noteq> [] \<Longrightarrow> list_all nonblank (emitted_flowables (append_Paragraph L t st))"
  by (simp add: append_Paragraph_def emitted_flowables_def nonblank_def)

lemma strip_bullet_item: "strip (bullet # u) \<noteq> []"
  by (simp add: strip_nonempty_iff isspace_def bullet_def)

lemma strip_bullet_nested: "strip (v @ bullet # u) \<noteq> []"
  by (simp add: strip_nonempty_iff isspace_def bullet_def)

lemma nonblank_nested_item: "list_all nonblank (emitted_flowables (nested_item L n))"
  by (simp add: nested_item_def Let_def nonblank_append_Paragraph strip_bullet_nested
      content_nothing)

lemma nonblank_list_item: "list_all nonblank (emitted_flowables (list_item L n))"
  by (simp add: list_item_def Let_def nonblank_append_Paragraph strip_bullet_item
      content_nothing emitted_and_then emitted_for_each nonblank_nested_item
      split: option.splits)

lemma nonblank_handle_element: "list_all nonblank (emitted_flowables (handle_element L ce))"
  by (simp add: handle_element_def Let_def nonblank_append_Paragraph strip_bullet_item
      strip_strip_nonempty content_nothing emitted_for_each nonblank_list_item)

lemma nonblank_try_block: "list_all nonblank (emitted_flowables (try_block L h))"
proof (cases "BeautifulSoup L h")
  case (Inl e)
  then show ?thesis by (simp add: try_block_def emitted_flowables_def)
next
  case (Inr soup)
  then show ?thesis
    by (simp add: try_block_def emitted_for_each nonblank_handle_element)
qed

theorem returned_markup_is_not_blank:
  assumes "parse_html_content L html = Inr elements"
  shows "\<forall>f \<in> set elements. \<exists>t st. f = Paragraph t st \<and> strip t \<noteq> []"
proof -
  have "list_all nonblank elements"
    using nonblank_try_block [of L html] assms
    by (auto simp: parse_html_content_def Let_def emitted_flowables_def nonblank_def
        strip_strip_nonempty split: if_splits sum.splits prod.splits)
  show ?thesis
  proof
    fix f assume "f \<in> set elements"
    with \<open>list_all nonblank elements\<close> have "nonblank f" by (simp add: list_all_iff)
    then show "\<exists>t st. f = Paragraph t st \<and> strip t \<noteq> []"
      by (cases f) (simp_all add: nonblank_def)
  qed
qed

theorem returned_markup_is_not_blank_witness:
  "\<forall>f \<in> set [Paragraph ([bullet] @ lit '' '' @ []) ListItem,
          Paragraph (lit ''  '' @ [bullet] @ lit '' '' @ lit ''X'') ListItem,
          Paragraph ([bullet] @ lit '' '' @ lit ''X'') ListItem].
     \<exists>t st. f = Paragraph t st \<and> strip t \<noteq> []"
proof -
  have "colon_first_fragment \<noteq> []" by (simp add: colon_first_fragment_def lit_def)
  then have "parse_html_content (example_library [(colon_first_fragment, colon_first_soup)] [])
     colon_first_fragment =
     Inr [Paragraph ([bullet] @ lit '' '' @ []) ListItem,
          Paragraph (lit ''  '' @ [bullet] @ lit '' '' @ lit ''X'') ListItem,
          Paragraph ([bullet] @ lit '' '' @ lit ''X'') ListItem]"
    by (simp add: converter_defs example_library_def colon_first_soup_def lit_def)
  from returned_markup_is_not_blank [OF this] show ?thesis .
qed

end
